theory Spec2Isabelle
  imports Complex_Main
begin

section \<open>Data model (types.ts)\<close>

text \<open>
  A punch is \<open>{id, type, timestamp}\<close>. Timestamps are JavaScript numbers holding integral
  milliseconds since the epoch; they are modelled as unbounded integers, and hour totals as
  exact reals (the binary rounding of IEEE doubles is not part of the model).
\<close>

datatype punch_type = IN | OUT

record PunchEntry =
  id' :: string
  type :: punch_type
  timestamp :: int

record WorkDay =
  date :: string
  punches :: "PunchEntry list"
  totalHours :: real

datatype punch_status = PUNCHED_IN | PUNCHED_OUT


datatype error = RangeError | SyntaxError | RequestError

section \<open>The platform's calendar: \<open>new Date(t).toISOString().split('T')[0]\<close>\<close>

text \<open>
  The date part of \<open>toISOString\<close> is the UTC calendar date of the time value. The
  definitions follow the ECMAScript time-value algebra, on day numbers
  (\<open>Day t = floor (t / msPerDay)\<close>).
\<close>

definition msPerDay :: int where
  "msPerDay = 86400000"

definition Day :: "int \<Rightarrow> int" where
  "Day t = t div msPerDay"

definition DayFromYear :: "int \<Rightarrow> int" where
  "DayFromYear y = 365 * (y - 1970) + (y - 1969) div 4 - (y - 1901) div 100 + (y - 1601) div 400"

definition YearFromDay :: "int \<Rightarrow> int" where
  "YearFromDay z =
     (let y = 1970 + (400 * z) div 146097
      in if DayFromYear (y + 1) \<le> z then y + 1
         else if DayFromYear y \<le> z then y
         else y - 1)"

definition DaysInYear :: "int \<Rightarrow> int" where
  "DaysInYear y =
     (if y mod 4 \<noteq> 0 then 365
      else if y mod 100 \<noteq> 0 then 366
      else if y mod 400 \<noteq> 0 then 365
      else 366)"

definition InLeapYear :: "int \<Rightarrow> int" where
  "InLeapYear y = DaysInYear y - 365"

definition DayWithinYear :: "int \<Rightarrow> int" where
  "DayWithinYear z = z - DayFromYear (YearFromDay z)"

text \<open>The first day of month \<open>m\<close> (0 to 11) within a year with \<open>l\<close> leap days.\<close>

definition month_start :: "int \<Rightarrow> nat \<Rightarrow> int" where
  "month_start l m =
     [0, 31, 59 + l, 90 + l, 120 + l, 151 + l, 181 + l, 212 + l, 243 + l, 273 + l,
      304 + l, 334 + l] ! m"

definition MonthFromDay :: "int \<Rightarrow> nat" where
  "MonthFromDay z =
     (let d = DayWithinYear z; l = InLeapYear (YearFromDay z)
      in if d < 31 then 0
         else if d < 59 + l then 1
         else if d < 90 + l then 2
         else if d < 120 + l then 3
         else if d < 151 + l then 4
         else if d < 181 + l then 5
         else if d < 212 + l then 6
         else if d < 243 + l then 7
         else if d < 273 + l then 8
         else if d < 304 + l then 9
         else if d < 334 + l then 10
         else 11)"

definition DateFromDay :: "int \<Rightarrow> int" where
  "DateFromDay z =
     DayWithinYear z - month_start (InLeapYear (YearFromDay z)) (MonthFromDay z) + 1"

definition digit_char :: "nat \<Rightarrow> char" where
  "digit_char n = ''0123456789'' ! (n mod 10)"

fun pad :: "nat \<Rightarrow> nat \<Rightarrow> string" where
  "pad 0 n = []"
| "pad (Suc k) n = pad k (n div 10) @ [digit_char n]"

text \<open>
  Years 0 to 9999 print as four digits, every other year as a sign and six digits.
\<close>

definition year_string :: "int \<Rightarrow> string" where
  "year_string y =
     (if 0 \<le> y \<and> y \<le> 9999 then pad 4 (nat y)
      else (if y < 0 then CHR ''-'' else CHR ''+'') # pad 6 (nat \<bar>y\<bar>))"

definition iso_date :: "int \<Rightarrow> string" where
  "iso_date z =
     year_string (YearFromDay z) @ ''-'' @ pad 2 (MonthFromDay z + 1) @ ''-''
       @ pad 2 (nat (DateFromDay z))"

definition maxTime :: int where
  "maxTime = 8640000000000000"

text \<open>
  \<open>new Date(t).toISOString()\<close> throws a RangeError when the time value is outside
  \<open>\<plusminus>8.64e15\<close> ms (an invalid Date). \<open>new Date()\<close>, the current time, is always valid.
\<close>

definition toISOString_date :: "int \<Rightarrow> error + string" where
  "toISOString_date t = (if \<bar>t\<bar> \<le> maxTime then Inr (iso_date (Day t)) else Inl RangeError)"

definition today :: "int \<Rightarrow> string" where
  "today now = iso_date (Day now)"

subsection \<open>\<open>new Date(s).getTime()\<close> on a date-only string\<close>

text \<open>
  A date-only ISO string (\<open>YYYY-MM-DD\<close>, or \<open>\<plusminus>YYYYYY-MM-DD\<close> with an expanded year) is
  read as midnight UTC of that date. \<open>None\<close> stands for an invalid Date, whose \<open>getTime()\<close>
  is NaN. Only these two forms are modelled, the ones \<open>toISOString\<close> produces; every other
  string is taken as invalid.
\<close>

definition digit_val :: "char \<Rightarrow> nat option" where
  "digit_val c =
     (let n = of_char c :: nat in if 48 \<le> n \<and> n \<le> 57 then Some (n - 48) else None)"

fun digits_val :: "nat \<Rightarrow> string \<Rightarrow> nat option" where
  "digits_val acc [] = Some acc"
| "digits_val acc (c # cs) =
     (case digit_val c of None \<Rightarrow> None | Some d \<Rightarrow> digits_val (10 * acc + d) cs)"

definition MakeDay :: "int \<Rightarrow> nat \<Rightarrow> int \<Rightarrow> int" where
  "MakeDay y m dt = DayFromYear y + month_start (InLeapYear y) m + dt - 1"

definition TimeClip :: "int \<Rightarrow> int option" where
  "TimeClip t = (if \<bar>t\<bar> \<le> maxTime then Some t else None)"

definition parse_month_date :: "int \<Rightarrow> string \<Rightarrow> int option" where
  "parse_month_date y s =
     (if length s = 6 \<and> s ! 0 = CHR ''-'' \<and> s ! 3 = CHR ''-''
      then (case (digits_val 0 (take 2 (drop 1 s)), digits_val 0 (drop 4 s)) of
              (Some m, Some d) \<Rightarrow>
                if 1 \<le> m \<and> m \<le> 12 \<and> 1 \<le> d \<and> d \<le> 31
                then TimeClip (MakeDay y (m - 1) (int d) * msPerDay)
                else None
            | _ \<Rightarrow> None)
      else None)"

definition Date_parse :: "string \<Rightarrow> int option" where
  "Date_parse s =
     (if length s = 10
      then (case digits_val 0 (take 4 s) of
              Some y \<Rightarrow> parse_month_date (int y) (drop 4 s)
            | None \<Rightarrow> None)
      else if length s = 13 \<and> (hd s = CHR ''+'' \<or> hd s = CHR ''-'')
      then (case digits_val 0 (take 6 (tl s)) of
              Some y \<Rightarrow>
                if hd s = CHR ''-'' \<and> y = 0 then None
                else parse_month_date (if hd s = CHR ''-'' then - int y else int y) (drop 7 s)
            | None \<Rightarrow> None)
      else None)"

section \<open>The aggregation engine (App.tsx)\<close>

text \<open>\<open>currentStatus\<close>: the length test, then the type of \<open>punches[0]\<close>.\<close>

definition currentStatus :: "PunchEntry list \<Rightarrow> punch_status" where
  "currentStatus ps =
     (if length ps = 0 then PUNCHED_OUT
      else if type (hd ps) = IN then PUNCHED_IN else PUNCHED_OUT)"

text \<open>
  \<open>[...punches].sort((a, b) => a.timestamp - b.timestamp)\<close>: a stable sort by timestamp.
\<close>

definition sortedPunches :: "PunchEntry list \<Rightarrow> PunchEntry list" where
  "sortedPunches ps = sort_key timestamp ps"

text \<open>
  \<open>days\<close> is an object with date-string keys; \<open>Object.values\<close> lists it in the order the
  keys were first inserted, so it is a list of WorkDays with distinct dates.
\<close>

fun push_punch :: "string \<Rightarrow> PunchEntry \<Rightarrow> WorkDay list \<Rightarrow> WorkDay list" where
  "push_punch d p [] = [\<lparr>date = d, punches = [p], totalHours = 0\<rparr>]"
| "push_punch d p (w # ws) =
     (if date w = d then w\<lparr>punches := punches w @ [p]\<rparr> # ws else w # push_punch d p ws)"

text \<open>
  The grouping loop over the sorted punches; the first invalid timestamp throws.
\<close>

fun group_days :: "PunchEntry list \<Rightarrow> WorkDay list \<Rightarrow> error + WorkDay list" where
  "group_days [] days = Inr days"
| "group_days (p # ps) days =
     (case toISOString_date (timestamp p) of
        Inl e \<Rightarrow> Inl e
      | Inr d \<Rightarrow> group_days ps (push_punch d p days))"

text \<open>
  The body of the loop over a day's punches, on the pair \<open>(totalMs, startTime)\<close>.
  \<open>startTime: number | null\<close> is tested for truthiness: \<open>null\<close> and \<open>0\<close> are falsy.
\<close>

definition truthy :: "int option \<Rightarrow> bool" where
  "truthy s = (case s of None \<Rightarrow> False | Some v \<Rightarrow> v \<noteq> 0)"

fun punch_step :: "int \<times> int option \<Rightarrow> PunchEntry \<Rightarrow> int \<times> int option" where
  "punch_step (totalMs, startTime) p =
     (if type p = IN then (totalMs, Some (timestamp p))
      else if type p = OUT \<and> truthy startTime
      then (case startTime of Some s \<Rightarrow> (totalMs + (timestamp p - s), None)
            | None \<Rightarrow> (totalMs, startTime))
      else (totalMs, startTime))"

text \<open>
  \<open>x.toFixed(f)\<close> read back by \<open>parseFloat\<close>: the multiple of \<open>10^-f\<close> nearest to \<open>x\<close>,
  the larger magnitude on a tie, with the sign of \<open>x\<close>.
\<close>

definition toFixed :: "nat \<Rightarrow> real \<Rightarrow> real" where
  "toFixed f x =
     (if x < 0 then - (of_int \<lfloor>- x * 10 ^ f + 1 / 2\<rfloor> / 10 ^ f)
      else of_int \<lfloor>x * 10 ^ f + 1 / 2\<rfloor> / 10 ^ f)"

text \<open>
  The day's milliseconds: the loop from \<open>(0, null)\<close>, then the credit of a session still
  open when the day's key is today's.
\<close>

definition day_total_ms :: "int \<Rightarrow> WorkDay \<Rightarrow> int" where
  "day_total_ms now day =
     (case foldl punch_step (0, None) (punches day) of
        (totalMs, startTime) \<Rightarrow>
          (if truthy startTime \<and> date day = today now
           then (case startTime of Some s \<Rightarrow> totalMs + (now - s) | None \<Rightarrow> totalMs)
           else totalMs))"

definition calc_hours :: "int \<Rightarrow> WorkDay \<Rightarrow> WorkDay" where
  "calc_hours now day =
     day\<lparr>totalHours := toFixed 2 (of_int (day_total_ms now day) / of_int (1000 * 60 * 60))\<rparr>"

text \<open>\<open>workDaysData\<close>: group, compute each day's hours, list the days in reverse.\<close>

definition workDaysData :: "int \<Rightarrow> PunchEntry list \<Rightarrow> error + WorkDay list" where
  "workDaysData now ps =
     (case group_days (sortedPunches ps) [] of
        Inl e \<Rightarrow> Inl e
      | Inr days \<Rightarrow> Inr (rev (map (calc_hours now) days)))"



text \<open>
  \<open>handlePunch\<close> puts the new punch at the front: the store is most-recent-first. The fresh
  UUID and the clock reading are parameters.
\<close>

definition handlePunch :: "string \<Rightarrow> int \<Rightarrow> punch_type \<Rightarrow> PunchEntry list \<Rightarrow> PunchEntry list" where
  "handlePunch uuid now ty prev = \<lparr>id' = uuid, type = ty, timestamp = now\<rparr> # prev"

section \<open>The platform's JSON\<close>

text \<open>
  A JavaScript value as \<open>JSON.parse\<close> builds it. An object keeps its members in text
  order. Numbers are exact reals: the value of the literal, without the rounding to a
  double. A string is a list of code units below 256; a \<open>\u\<close> escape above \<open>00FF\<close> is outside
  the model and is rejected.
\<close>

datatype json =
  JNull
| JBool bool
| JNum real
| JStr string
| JArr "json list"
| JObj "(string \<times> json) list"

datatype token =
  LBrace | RBrace | LBrack | RBrack | Colon | Comma
| TStr string | TNum real | TTrue | TFalse | TNull

definition dquote :: char where
  "dquote = CHR 0x22"

definition bslash :: char where
  "bslash = CHR 0x5C"

subsection \<open>\<open>JSON.stringify\<close> on a punch list\<close>

definition hex_char :: "nat \<Rightarrow> char" where
  "hex_char n = ''0123456789abcdef'' ! (n mod 16)"

text \<open>
  QuoteJSONString: the quote and the backslash are escaped, the control characters below
  0x20 are written \<open>\b \t \n \f \r\<close> or \<open>\u00XX\<close>, every other code unit is copied.
\<close>

definition escape_char :: "char \<Rightarrow> string" where
  "escape_char c =
     (let n = of_char c :: nat
      in if c = dquote then [bslash, dquote]
         else if c = bslash then [bslash, bslash]
         else if n = 8 then [bslash, CHR ''b'']
         else if n = 9 then [bslash, CHR ''t'']
         else if n = 10 then [bslash, CHR ''n'']
         else if n = 12 then [bslash, CHR ''f'']
         else if n = 13 then [bslash, CHR ''r'']
         else if n < 32 then [bslash, CHR ''u'', CHR ''0'', CHR ''0'', hex_char (n div 16), hex_char n]
         else [c])"

definition quote :: "string \<Rightarrow> string" where
  "quote s = dquote # concat (map escape_char s) @ [dquote]"

text \<open>
  The timestamp is written as the decimal numeral of an integer (Number::toString does so
  below \<open>10^21\<close> in magnitude).
\<close>

fun show_nat :: "nat \<Rightarrow> string" where
  "show_nat n = (if n < 10 then [digit_char n] else show_nat (n div 10) @ [digit_char n])"

declare show_nat.simps [simp del]

definition show_int :: "int \<Rightarrow> string" where
  "show_int i = (if i < 0 then CHR ''-'' # show_nat (nat (- i)) else show_nat (nat i))"

text \<open>
  \<open>JSON.stringify(punches)\<close>: an array of objects with the members \<open>id\<close>, \<open>type\<close>,
  \<open>timestamp\<close> in this order, without white space.
\<close>

definition type_name :: "punch_type \<Rightarrow> string" where
  "type_name ty = (case ty of IN \<Rightarrow> ''IN'' | OUT \<Rightarrow> ''OUT'')"

definition stringify_punch :: "PunchEntry \<Rightarrow> string" where
  "stringify_punch p =
     ''{'' @ quote ''id'' @ '':'' @ quote (id' p) @ '',''
       @ quote ''type'' @ '':'' @ quote (type_name (type p)) @ '',''
       @ quote ''timestamp'' @ '':'' @ show_int (timestamp p) @ ''}''"

fun join_commas :: "string list \<Rightarrow> string" where
  "join_commas [] = []"
| "join_commas [s] = s"
| "join_commas (s # t # ss) = s @ '','' @ join_commas (t # ss)"

definition JSON_stringify :: "PunchEntry list \<Rightarrow> string" where
  "JSON_stringify ps = ''['' @ join_commas (map stringify_punch ps) @ '']''"

subsection \<open>\<open>JSON.parse\<close>\<close>

definition is_digit :: "char \<Rightarrow> bool" where
  "is_digit c = (digit_val c \<noteq> None)"

definition hex_val :: "char \<Rightarrow> nat option" where
  "hex_val c =
     (let n = of_char c :: nat
      in if 48 \<le> n \<and> n \<le> 57 then Some (n - 48)
         else if 97 \<le> n \<and> n \<le> 102 then Some (n - 87)
         else if 65 \<le> n \<and> n \<le> 70 then Some (n - 55)
         else None)"

definition hex4 :: "char \<Rightarrow> char \<Rightarrow> char \<Rightarrow> char \<Rightarrow> nat option" where
  "hex4 a b c d =
     (case (hex_val a, hex_val b, hex_val c, hex_val d) of
        (Some w, Some x, Some y, Some z) \<Rightarrow> Some (((w * 16 + x) * 16 + y) * 16 + z)
      | _ \<Rightarrow> None)"

definition unescape :: "char \<Rightarrow> char option" where
  "unescape e =
     (if e = dquote then Some dquote
      else if e = bslash then Some bslash
      else if e = CHR ''/'' then Some CHR ''/''
      else if e = CHR ''b'' then Some (char_of (8 :: nat))
      else if e = CHR ''t'' then Some (char_of (9 :: nat))
      else if e = CHR ''n'' then Some (char_of (10 :: nat))
      else if e = CHR ''f'' then Some (char_of (12 :: nat))
      else if e = CHR ''r'' then Some (char_of (13 :: nat))
      else None)"

text \<open>The characters of a string after its opening quote, and the text after its closing quote.\<close>

fun lex_string :: "string \<Rightarrow> (string \<times> string) option" where
  "lex_string [] = None"
| "lex_string (c # cs) =
     (if c = dquote then Some ([], cs)
      else if c = bslash then
        (case cs of
           [] \<Rightarrow> None
         | e # cs' \<Rightarrow>
             if e = CHR ''u'' then
               (case cs' of
                  a # b # c' # d # cs'' \<Rightarrow>
                    (case hex4 a b c' d of
                       None \<Rightarrow> None
                     | Some n \<Rightarrow>
                         if n < 256
                         then (case lex_string cs'' of
                                 None \<Rightarrow> None
                               | Some (s, r) \<Rightarrow> Some (char_of n # s, r))
                         else None)
                | _ \<Rightarrow> None)
             else
               (case unescape e of
                  None \<Rightarrow> None
                | Some ch \<Rightarrow>
                    (case lex_string cs' of
                       None \<Rightarrow> None
                     | Some (s, r) \<Rightarrow> Some (ch # s, r))))
      else if (of_char c :: nat) < 32 then None
      else (case lex_string cs of None \<Rightarrow> None | Some (s, r) \<Rightarrow> Some (c # s, r)))"

definition nat_of_digits :: "string \<Rightarrow> nat" where
  "nat_of_digits ds = foldl (\<lambda>a c. 10 * a + (of_char c - 48)) 0 ds"

text \<open>
  A number literal: an optional minus, an integer part without a leading zero, an optional
  fraction, an optional exponent.
\<close>

definition lex_frac :: "string \<Rightarrow> (string \<times> string) option" where
  "lex_frac s =
     (case s of
        c # r \<Rightarrow>
          if c = CHR ''.''
          then (if takeWhile is_digit r = [] then None
                else Some (takeWhile is_digit r, dropWhile is_digit r))
          else Some ([], s)
      | [] \<Rightarrow> Some ([], s))"

definition lex_exp :: "string \<Rightarrow> (int \<times> string) option" where
  "lex_exp s =
     (case s of
        c # r \<Rightarrow>
          if c = CHR ''e'' \<or> c = CHR ''E''
          then (let (neg, r') =
                      (case r of
                         g # t \<Rightarrow> if g = CHR ''-'' then (True, t)
                                  else if g = CHR ''+'' then (False, t) else (False, r)
                       | [] \<Rightarrow> (False, r))
                in if takeWhile is_digit r' = [] then None
                   else Some ((if neg then - 1 else 1) * int (nat_of_digits (takeWhile is_digit r')),
                              dropWhile is_digit r'))
          else Some (0, s)
      | [] \<Rightarrow> Some (0, s))"

definition pow10 :: "int \<Rightarrow> real" where
  "pow10 e = (if 0 \<le> e then 10 ^ nat e else 1 / 10 ^ nat (- e))"

definition lex_number :: "string \<Rightarrow> (real \<times> string) option" where
  "lex_number s =
     (let (neg, s1) = (case s of c # r \<Rightarrow> if c = CHR ''-'' then (True, r) else (False, s)
                       | [] \<Rightarrow> (False, s));
          ds = takeWhile is_digit s1
      in if ds = [] \<or> (1 < length ds \<and> hd ds = CHR ''0'') then None
         else (case lex_frac (dropWhile is_digit s1) of
                 None \<Rightarrow> None
               | Some (fs, s2) \<Rightarrow>
                   (case lex_exp s2 of
                      None \<Rightarrow> None
                    | Some (e, s3) \<Rightarrow>
                        Some ((if neg then - 1 else 1)
                                * (real (nat_of_digits (ds @ fs)) / 10 ^ length fs) * pow10 e,
                              s3))))"

definition is_ws :: "char \<Rightarrow> bool" where
  "is_ws c = (let n = of_char c :: nat in n = 32 \<or> n = 9 \<or> n = 10 \<or> n = 13)"

text \<open>
  The tokens of a JSON text; \<open>None\<close> is a SyntaxError. Each round consumes at least one
  character.
\<close>

function lex :: "string \<Rightarrow> token list option" where
  "lex [] = Some []"
| "lex (c # cs) =
     (if is_ws c then lex cs
      else if c = CHR ''{'' then map_option (Cons LBrace) (lex cs)
      else if c = CHR ''}'' then map_option (Cons RBrace) (lex cs)
      else if c = CHR ''['' then map_option (Cons LBrack) (lex cs)
      else if c = CHR '']'' then map_option (Cons RBrack) (lex cs)
      else if c = CHR '':'' then map_option (Cons Colon) (lex cs)
      else if c = CHR '','' then map_option (Cons Comma) (lex cs)
      else if c = dquote then
        (case lex_string cs of
           None \<Rightarrow> None
         | Some (s, r) \<Rightarrow> map_option (Cons (TStr s)) (lex r))
      else if c = CHR ''t'' then
        (if take 3 cs = ''rue'' then map_option (Cons TTrue) (lex (drop 3 cs)) else None)
      else if c = CHR ''f'' then
        (if take 4 cs = ''alse'' then map_option (Cons TFalse) (lex (drop 4 cs)) else None)
      else if c = CHR ''n'' then
        (if take 3 cs = ''ull'' then map_option (Cons TNull) (lex (drop 3 cs)) else None)
      else
        (case lex_number (c # cs) of
           None \<Rightarrow> None
         | Some (x, r) \<Rightarrow> map_option (Cons (TNum x)) (lex r)))"
  by pat_completeness auto
termination
proof -
  have str: "length r < length s" if "lex_string s = Some (v, r)" for s v r
    using that
  proof (induction s arbitrary: v r rule: lex_string.induct)
    case 1
    then show ?case by simp
  next
    case (2 c cs)
    then show ?case
      by (auto split: if_splits list.splits option.splits prod.splits) force+
  qed
  have frac: "length r \<le> length s" if "lex_frac s = Some (v, r)" for s v r
    using that length_dropWhile_le [of is_digit "tl s"]
    by (auto simp: lex_frac_def split: list.splits if_splits)
  have exp: "length r \<le> length s" if "lex_exp s = Some (v, r)" for s v r
  proof -
    have d: "length (dropWhile is_digit t) \<le> length t" for t
      by (rule length_dropWhile_le)
    from that show ?thesis
      using d [of "tl s"] d [of "tl (tl s)"]
      by (auto simp: lex_exp_def Let_def split: list.splits if_splits prod.splits)
  qed
  have num: "length r < length s" if "lex_number s = Some (v, r)" for s v r
  proof -
    obtain neg s1 where s1: "(case s of c # r \<Rightarrow> if c = CHR ''-'' then (True, r) else (False, s)
                       | [] \<Rightarrow> (False, s)) = (neg, s1)"
      by fastforce
    then have l1: "length s1 \<le> length s" by (auto split: list.splits if_splits)
    from that s1 obtain fs s2 e where
      ne: "takeWhile is_digit s1 \<noteq> []"
      and f: "lex_frac (dropWhile is_digit s1) = Some (fs, s2)"
      and x: "lex_exp s2 = Some (e, r)"
      by (auto simp: lex_number_def Let_def split: if_splits option.splits prod.splits)
    have "length (takeWhile is_digit s1) + length (dropWhile is_digit s1) = length s1"
      by (metis length_append takeWhile_dropWhile_id)
    with ne have "length (dropWhile is_digit s1) < length s1"
      by (cases "takeWhile is_digit s1") simp_all
    with frac [OF f] exp [OF x] l1 show ?thesis by linarith
  qed
  show ?thesis
    by (relation "measure length") (auto dest: str num)
qed

text \<open>
  The value a token list denotes. The fuel bounds the number of nested calls; a JSON text of
  \<open>n\<close> tokens needs less than \<open>n + 1\<close>.
\<close>

fun parse_value :: "nat \<Rightarrow> token list \<Rightarrow> (json \<times> token list) option"
  and parse_array :: "nat \<Rightarrow> token list \<Rightarrow> (json list \<times> token list) option"
  and parse_object :: "nat \<Rightarrow> token list \<Rightarrow> ((string \<times> json) list \<times> token list) option"
  where
  "parse_value 0 ts = None"
| "parse_value (Suc n) [] = None"
| "parse_value (Suc n) (t # ts) =
     (case t of
        TNull \<Rightarrow> Some (JNull, ts)
      | TTrue \<Rightarrow> Some (JBool True, ts)
      | TFalse \<Rightarrow> Some (JBool False, ts)
      | TNum x \<Rightarrow> Some (JNum x, ts)
      | TStr s \<Rightarrow> Some (JStr s, ts)
      | LBrack \<Rightarrow>
          (case ts of
             RBrack # ts' \<Rightarrow> Some (JArr [], ts')
           | _ \<Rightarrow> (case parse_array n ts of
                      None \<Rightarrow> None
                    | Some (vs, r) \<Rightarrow> Some (JArr vs, r)))
      | LBrace \<Rightarrow>
          (case ts of
             RBrace # ts' \<Rightarrow> Some (JObj [], ts')
           | _ \<Rightarrow> (case parse_object n ts of
                      None \<Rightarrow> None
                    | Some (ms, r) \<Rightarrow> Some (JObj ms, r)))
      | _ \<Rightarrow> None)"
| "parse_array 0 ts = None"
| "parse_array (Suc n) ts =
     (case parse_value n ts of
        None \<Rightarrow> None
      | Some (v, r) \<Rightarrow>
          (case r of
             Comma # r' \<Rightarrow>
               (case parse_array n r' of
                  None \<Rightarrow> None
                | Some (vs, r'') \<Rightarrow> Some (v # vs, r''))
           | RBrack # r' \<Rightarrow> Some ([v], r')
           | _ \<Rightarrow> None))"
| "parse_object 0 ts = None"
| "parse_object (Suc n) ts =
     (case ts of
        TStr k # Colon # ts' \<Rightarrow>
          (case parse_value n ts' of
             None \<Rightarrow> None
           | Some (v, r) \<Rightarrow>
               (case r of
                  Comma # r' \<Rightarrow>
                    (case parse_object n r' of
                       None \<Rightarrow> None
                     | Some (ms, r'') \<Rightarrow> Some ((k, v) # ms, r''))
                | RBrace # r' \<Rightarrow> Some ([(k, v)], r')
                | _ \<Rightarrow> None))
      | _ \<Rightarrow> None)"

definition JSON_parse :: "string \<Rightarrow> error + json" where
  "JSON_parse s =
     (case lex s of
        None \<Rightarrow> Inl SyntaxError
      | Some ts \<Rightarrow>
          (case parse_value (Suc (length ts)) ts of
             Some (v, []) \<Rightarrow> Inr v
           | _ \<Rightarrow> Inl SyntaxError))"

section \<open>The punch store (App.tsx, the two storage effects)\<close>

definition STORAGE_KEY :: string where
  "STORAGE_KEY = ''punchpro_data''"

text \<open>
  The value of a member of an object: when a key is written twice, the later member wins.
\<close>

definition member_value :: "(string \<times> json) list \<Rightarrow> string \<Rightarrow> json option" where
  "member_value ms k = map_of (rev ms) k"

text \<open>
  \<open>setPunches(JSON.parse(saved))\<close> takes the parsed value as a \<open>PunchEntry[]\<close> without a
  check. The typed reading of a value: an array whose elements are objects with a string
  \<open>id\<close>, a \<open>type\<close> that is \<open>IN\<close> or \<open>OUT\<close> and an integral \<open>timestamp\<close>. A value with
  no typed reading is kept as it is (\<open>Untyped\<close>).
\<close>

definition as_punch :: "json \<Rightarrow> PunchEntry option" where
  "as_punch v =
     (case v of
        JObj ms \<Rightarrow>
          (case (member_value ms ''id'', member_value ms ''type'', member_value ms ''timestamp'') of
             (Some (JStr i), Some (JStr ty), Some (JNum x)) \<Rightarrow>
               if x = of_int \<lfloor>x\<rfloor> \<and> (ty = ''IN'' \<or> ty = ''OUT'')
               then Some \<lparr>id' = i, type = (if ty = ''IN'' then IN else OUT),
                          timestamp = \<lfloor>x\<rfloor>\<rparr>
               else None
           | _ \<Rightarrow> None)
      | _ \<Rightarrow> None)"

definition as_punches :: "json \<Rightarrow> PunchEntry list option" where
  "as_punches v = (case v of JArr vs \<Rightarrow> those (map as_punch vs) | _ \<Rightarrow> None)"

datatype punches_state = Punches "PunchEntry list" | Untyped json

text \<open>
  The load effect: an absent key or an empty string leaves the initial empty list, a
  SyntaxError is caught and leaves it too.
\<close>

definition load_punches :: "(string \<rightharpoonup> string) \<Rightarrow> punches_state" where
  "load_punches storage =
     (case storage STORAGE_KEY of
        None \<Rightarrow> Punches []
      | Some saved \<Rightarrow>
          if saved = [] then Punches []
          else (case JSON_parse saved of
                  Inl e \<Rightarrow> Punches []
                | Inr v \<Rightarrow>
                    (case as_punches v of Some ps \<Rightarrow> Punches ps | None \<Rightarrow> Untyped v)))"

text \<open>The save effect: \<open>localStorage.setItem(STORAGE_KEY, JSON.stringify(punches))\<close>.\<close>

definition persist_punches ::
  "PunchEntry list \<Rightarrow> (string \<rightharpoonup> string) \<Rightarrow> (string \<rightharpoonup> string)" where
  "persist_punches ps storage = storage(STORAGE_KEY \<mapsto> JSON_stringify ps)"

section \<open>The insight client (services/geminiService)\<close>

definition fallback_insight :: json where
  "fallback_insight =
     JObj [(''summary'',
            JStr ''We couldn't generate insights at this moment. Keep up the good work!''),
           (''recommendations'',
            JArr [JStr ''Ensure you take regular breaks'', JStr ''Log your punches consistently'']),
           (''productivityScore'', JNum 0)]"

text \<open>
  The client is built before the \<open>try\<close>; the request and the parse of its text are inside.
  \<open>client\<close> is the outcome of \<open>new GoogleGenAI(...)\<close>, \<open>response\<close> the outcome of the awaited
  \<open>generateContent\<close>: an error, or the response's \<open>text\<close>, which may be undefined;
  \<open>response.text || '{}'\<close> replaces an undefined or empty text. The work data only enters
  the prompt. The result is the parsed value under a type assertion, which
  checks nothing at run time.
\<close>

definition text_or_default :: "string option \<Rightarrow> string" where
  "text_or_default text = (case text of None \<Rightarrow> ''{}'' | Some t \<Rightarrow> if t = [] then ''{}'' else t)"

definition getWorkInsights ::
  "WorkDay list \<Rightarrow> error + unit \<Rightarrow> error + string option \<Rightarrow> error + json" where
  "getWorkInsights workData client response =
     (case client of
        Inl e \<Rightarrow> Inl e
      | Inr _ \<Rightarrow>
          (case response of
             Inl e \<Rightarrow> Inr fallback_insight
           | Inr text \<Rightarrow>
               (case JSON_parse (text_or_default text) of
                  Inl e \<Rightarrow> Inr fallback_insight
                | Inr result \<Rightarrow> Inr result)))"



section \<open>The value and the tokens of a stringified punch list\<close>

definition punch_json :: "PunchEntry \<Rightarrow> json" where
  "punch_json p =
     JObj [(''id'', JStr (id' p)),
           (''type'', JStr (type_name (type p))),
           (''timestamp'', JNum (of_int (timestamp p)))]"

definition punch_tokens :: "PunchEntry \<Rightarrow> token list" where
  "punch_tokens p =
     [LBrace, TStr ''id'', Colon, TStr (id' p), Comma,
      TStr ''type'', Colon, TStr (type_name (type p)), Comma,
      TStr ''timestamp'', Colon, TNum (of_int (timestamp p)), RBrace]"

fun punches_tokens :: "PunchEntry list \<Rightarrow> token list" where
  "punches_tokens [] = []"
| "punches_tokens [p] = punch_tokens p"
| "punches_tokens (p # q # ps) = punch_tokens p @ Comma # punches_tokens (q # ps)"

section \<open>Reference definitions for the comparison with the specification\<close>

text \<open>
  The per-day step as the specification words it: a session is open as soon as a start value
  is present, whatever the value.
\<close>

fun spec_punch_step :: "int \<times> int option \<Rightarrow> PunchEntry \<Rightarrow> int \<times> int option" where
  "spec_punch_step (totalMs, start) p =
     (case type p of
        IN \<Rightarrow> (totalMs, Some (timestamp p))
      | OUT \<Rightarrow> (case start of
                 Some s \<Rightarrow> (totalMs + (timestamp p - s), None)
               | None \<Rightarrow> (totalMs, None)))"

text \<open>
  A day made only of matched IN-then-OUT pairs, and the sum of \<open>OUT\<^sub>i - IN\<^sub>i\<close> over its pairs.
\<close>

fun paired :: "PunchEntry list \<Rightarrow> bool" where
  "paired [] = True"
| "paired [p] = False"
| "paired (p # q # r) = (type p = IN \<and> type q = OUT \<and> paired r)"

fun pair_sum :: "PunchEntry list \<Rightarrow> int" where
  "pair_sum (p # q # r) = (timestamp q - timestamp p) + pair_sum r"
| "pair_sum r = 0"

text \<open>
  The calendar date of a time value read in a local time zone whose offset from UTC is
  \<open>tza\<close> milliseconds (ECMAScript's \<open>LocalTime t = t + LocalTZA\<close>).
\<close>

definition local_date :: "int \<Rightarrow> int \<Rightarrow> string" where
  "local_date tza t = iso_date (Day (t + tza))"


text \<open>The punches already filed under a date key, for the grouping invariant.\<close>

definition old_punches :: "WorkDay list \<Rightarrow> string \<Rightarrow> PunchEntry list" where
  "old_punches ds d = concat (map punches (filter (\<lambda>w. date w = d) ds))"

section \<open>Grouping invariant\<close>

lemma push_punch_dates:
  "map date (push_punch d p ds) = (if d \<in> set (map date ds) then map date ds else map date ds @ [d])"
  by (induction ds) auto

lemma push_punch_distinct:
  "distinct (map date ds) \<Longrightarrow> distinct (map date (push_punch d p ds))"
  by (simp add: push_punch_dates)

lemma old_punches_fresh: "d \<notin> date ` set ds \<Longrightarrow> old_punches ds d = []"
  by (induction ds) (auto simp: old_punches_def)

lemma old_punches_Cons:
  "old_punches (w # ds) k = (if date w = k then punches w @ old_punches ds k else old_punches ds k)"
  by (simp add: old_punches_def)

lemma push_punch_old:
  "distinct (map date ds) \<Longrightarrow>
   old_punches (push_punch d p ds) k = old_punches ds k @ (if k = d then [p] else [])"
proof (induction ds)
  case Nil
  then show ?case by (simp add: old_punches_def)
next
  case (Cons w ds)
  then show ?case by (auto simp: old_punches_Cons old_punches_fresh)
qed

lemma push_punch_totalHours:
  "\<forall>w \<in> set ds. totalHours w = 0 \<Longrightarrow> \<forall>w \<in> set (push_punch d p ds). totalHours w = 0"
  by (induction ds) auto

lemma group_days_inv:
  "group_days ps ds = Inr ds' \<Longrightarrow> distinct (map date ds) \<Longrightarrow>
   distinct (map date ds')
   \<and> set (map date ds') = set (map date ds) \<union> {d. \<exists>p \<in> set ps. toISOString_date (timestamp p) = Inr d}
   \<and> (\<forall>k. old_punches ds' k =
          old_punches ds k @ filter (\<lambda>p. toISOString_date (timestamp p) = Inr k) ps)"
proof (induction ps arbitrary: ds)
  case Nil
  then show ?case by simp
next
  case (Cons p ps)
  from Cons.prems(1) obtain d where d: "toISOString_date (timestamp p) = Inr d"
    and g: "group_days ps (push_punch d p ds) = Inr ds'"
    by (auto split: sum.splits)
  have dist: "distinct (map date (push_punch d p ds))"
    using Cons.prems(2) by (rule push_punch_distinct)
  from Cons.IH [OF g dist] have
    a: "distinct (map date ds')"
    and b: "set (map date ds') = set (map date (push_punch d p ds)) \<union> {d. \<exists>p \<in> set ps. toISOString_date (timestamp p) = Inr d}"
    and c: "\<And>k. old_punches ds' k = old_punches (push_punch d p ds) k @ filter (\<lambda>p. toISOString_date (timestamp p) = Inr k) ps"
    by auto
  have b': "set (map date ds') = set (map date ds) \<union> {d. \<exists>p \<in> set (p # ps). toISOString_date (timestamp p) = Inr d}"
    unfolding b push_punch_dates using d by auto
  have c': "old_punches ds' k = old_punches ds k @ filter (\<lambda>p. toISOString_date (timestamp p) = Inr k) (p # ps)" for k
    unfolding c push_punch_old [OF Cons.prems(2)] using d by auto
  from a b' c' show ?case by blast
qed

lemma old_punches_distinct:
  "distinct (map date ds) \<Longrightarrow> w \<in> set ds \<Longrightarrow> old_punches ds (date w) = punches w"
proof (induction ds)
  case Nil
  then show ?case by simp
next
  case (Cons a ds)
  show ?case
  proof (cases "w = a")
    case True
    have "old_punches ds (date a) = []"
      using Cons.prems(1) by (intro old_punches_fresh) simp
    then show ?thesis using True by (simp add: old_punches_Cons)
  next
    case False
    then have w: "w \<in> set ds" using Cons.prems(2) by simp
    then have "date a \<noteq> date w" using Cons.prems(1) by auto
    then show ?thesis using Cons.IH w Cons.prems(1) by (simp add: old_punches_Cons)
  qed
qed

lemma group_days_total:
  "\<forall>p \<in> set ps. \<bar>timestamp p\<bar> \<le> maxTime \<Longrightarrow> \<exists>ds'. group_days ps ds = Inr ds'"
  by (induction ps arbitrary: ds) (auto simp: toISOString_date_def)

lemma group_days_error:
  "\<exists>p \<in> set ps. \<not> \<bar>timestamp p\<bar> \<le> maxTime \<Longrightarrow> group_days ps ds = Inl RangeError"
  by (induction ps arbitrary: ds) (auto simp: toISOString_date_def)

lemma group_days_totalHours:
  "group_days ps ds = Inr ds' \<Longrightarrow> \<forall>w \<in> set ds. totalHours w = 0 \<Longrightarrow> \<forall>w \<in> set ds'. totalHours w = 0"
proof (induction ps arbitrary: ds)
  case Nil
  then show ?case by simp
next
  case (Cons p ps)
  from Cons.prems(1) obtain d where g: "group_days ps (push_punch d p ds) = Inr ds'"
    by (auto split: sum.splits)
  show ?case by (rule Cons.IH [OF g push_punch_totalHours [OF Cons.prems(2)]])
qed

lemma day_total_ms_cong:
  "date w = date v \<Longrightarrow> punches w = punches v \<Longrightarrow> day_total_ms now w = day_total_ms now v"
  by (simp add: day_total_ms_def)

lemma workDaysData_day:
  assumes "workDaysData now ps = Inr days" and "w \<in> set days"
  shows "punches w = filter (\<lambda>p. toISOString_date (timestamp p) = Inr (date w)) (sortedPunches ps)"
    and "totalHours w = toFixed 2 (of_int (day_total_ms now w) / 3600000)"
    and "punches w \<noteq> []"
proof -
  from assms(1) obtain ds where g: "group_days (sortedPunches ps) [] = Inr ds"
    and days: "days = rev (map (calc_hours now) ds)"
    by (auto simp: workDaysData_def split: sum.splits)
  from assms(2) days obtain v where v: "v \<in> set ds" and w: "w = calc_hours now v" by auto
  have inv: "distinct (map date ds)"
    "set (map date ds) = {d. \<exists>p \<in> set (sortedPunches ps). toISOString_date (timestamp p) = Inr d}"
    "\<And>k. old_punches ds k = filter (\<lambda>p. toISOString_date (timestamp p) = Inr k) (sortedPunches ps)"
    using group_days_inv [OF g] by (auto simp: old_punches_def)
  have pw: "punches w = punches v" and dw: "date w = date v" by (simp_all add: w calc_hours_def)
  have "punches v = old_punches ds (date v)"
    using old_punches_distinct [OF inv(1) v] by simp
  then show p: "punches w = filter (\<lambda>p. toISOString_date (timestamp p) = Inr (date w)) (sortedPunches ps)"
    using inv(3) pw dw by simp
  have "day_total_ms now w = day_total_ms now v"
    using dw pw by (rule day_total_ms_cong)
  then show "totalHours w = toFixed 2 (of_int (day_total_ms now w) / 3600000)"
    by (simp add: w calc_hours_def)
  from v have "date v \<in> set (map date ds)" by simp
  then obtain q where "q \<in> set (sortedPunches ps)" "toISOString_date (timestamp q) = Inr (date v)"
    unfolding inv(2) by auto
  then show "punches w \<noteq> []" unfolding p dw by (auto simp: filter_empty_conv)
qed

lemma iso_date_0: "iso_date 0 = ''1970-01-01''"
  by code_simp

lemma Day_first: "0 \<le> t \<Longrightarrow> t < msPerDay \<Longrightarrow> Day t = 0"
  by (simp add: Day_def)

lemma workDaysData_valid:
  assumes "workDaysData now ps = Inr days"
  shows "\<forall>p \<in> set ps. \<bar>timestamp p\<bar> \<le> maxTime"
proof (rule ccontr)
  assume "\<not> ?thesis"
  then have "\<exists>p \<in> set (sortedPunches ps). \<not> \<bar>timestamp p\<bar> \<le> maxTime"
    by (simp add: sortedPunches_def)
  from group_days_error [OF this] assms show False
    by (simp add: workDaysData_def)
qed

lemma workDaysData_dates:
  assumes "workDaysData now ps = Inr days"
  shows "distinct (map date days)"
    and "set (map date days) = {d. \<exists>p \<in> set ps. toISOString_date (timestamp p) = Inr d}"
proof -
  from assms obtain ds where g: "group_days (sortedPunches ps) [] = Inr ds"
    and days: "days = rev (map (calc_hours now) ds)"
    by (auto simp: workDaysData_def split: sum.splits)
  have m: "map date days = rev (map date ds)"
    by (simp add: days rev_map calc_hours_def comp_def)
  from group_days_inv [OF g] show "distinct (map date days)"
    by (simp add: m)
  from group_days_inv [OF g] show "set (map date days) = {d. \<exists>p \<in> set ps. toISOString_date (timestamp p) = Inr d}"
    by (simp add: m sortedPunches_def)
qed

lemma workDaysData_returns:
  assumes "\<forall>p \<in> set ps. \<bar>timestamp p\<bar> \<le> maxTime"
  shows "\<exists>days. workDaysData now ps = Inr days"
proof -
  have "\<forall>p \<in> set (sortedPunches ps). \<bar>timestamp p\<bar> \<le> maxTime"
    using assms by (simp add: sortedPunches_def)
  from group_days_total [OF this, of "[]"] show ?thesis
    by (auto simp: workDaysData_def)
qed

lemma workDaysData_RangeError:
  assumes "\<exists>p \<in> set ps. \<not> \<bar>timestamp p\<bar> \<le> maxTime"
  shows "workDaysData now ps = Inl RangeError"
proof -
  have "\<exists>p \<in> set (sortedPunches ps). \<not> \<bar>timestamp p\<bar> \<le> maxTime"
    using assms by (simp add: sortedPunches_def)
  from group_days_error [OF this, of "[]"] show ?thesis
    by (simp add: workDaysData_def)
qed

section \<open>The calendar: dates print and parse back\<close>

subsection \<open>Years\<close>

lemma div_succ:
  fixes a n :: int
  assumes "0 < n"
  shows "(a + 1) div n = a div n + (if (a + 1) mod n = 0 then 1 else 0)"
proof -
  define q r where "q = a div n" and "r = a mod n"
  have a: "a = n * q + r" by (simp add: q_def r_def)
  have r: "0 \<le> r" "r < n" using assms by (simp_all add: r_def)
  show ?thesis
  proof (cases "r + 1 < n")
    case True
    have e: "a + 1 = n * q + (r + 1)" using a by simp
    have "(a + 1) div n = q" by (rule int_div_pos_eq [OF e]) (use r True in simp_all)
    moreover have "(a + 1) mod n = r + 1" by (rule int_mod_pos_eq [OF e]) (use r True in simp_all)
    ultimately show ?thesis using r by (simp add: q_def)
  next
    case False
    then have rn: "r + 1 = n" using r by simp
    have e: "a + 1 = n * (q + 1) + 0" using a rn by (simp add: algebra_simps)
    have "(a + 1) div n = q + 1" by (rule int_div_pos_eq [OF e]) (use assms in simp_all)
    moreover have "(a + 1) mod n = 0" by (rule int_mod_pos_eq [OF e]) (use assms in simp_all)
    ultimately show ?thesis by (simp add: q_def)
  qed
qed

lemma mod_shift_4: "(y - 1968) mod 4 = (y::int) mod 4"
proof -
  have "y - 1968 = y + (- 492) * 4" by simp
  then show ?thesis by (metis mod_mult_self1)
qed

lemma mod_shift_100: "(y - 1900) mod 100 = (y::int) mod 100"
proof -
  have "y - 1900 = y + (- 19) * 100" by simp
  then show ?thesis by (metis mod_mult_self1)
qed

lemma mod_shift_400: "(y - 1600) mod 400 = (y::int) mod 400"
proof -
  have "y - 1600 = y + (- 4) * 400" by simp
  then show ?thesis by (metis mod_mult_self1)
qed

lemma DayFromYear_succ: "DayFromYear (y + 1) = DayFromYear y + DaysInYear y"
proof -
  have a: "(y + 1 - 1969) div 4 = (y - 1969) div 4 + (if y mod 4 = 0 then 1 else 0)"
    using div_succ [of 4 "y - 1969"] mod_shift_4 [of y] by (simp add: algebra_simps)
  have b: "(y + 1 - 1901) div 100 = (y - 1901) div 100 + (if y mod 100 = 0 then 1 else 0)"
    using div_succ [of 100 "y - 1901"] mod_shift_100 [of y] by (simp add: algebra_simps)
  have c: "(y + 1 - 1601) div 400 = (y - 1601) div 400 + (if y mod 400 = 0 then 1 else 0)"
    using div_succ [of 400 "y - 1601"] mod_shift_400 [of y] by (simp add: algebra_simps)
  have d: "y mod 100 = 0" if "y mod 400 = 0"
  proof -
    from that have "400 dvd y" by (simp add: dvd_eq_mod_eq_0)
    then have "100 dvd y" by (rule dvd_trans [rotated]) simp
    then show ?thesis by (simp add: dvd_eq_mod_eq_0)
  qed
  have e: "y mod 4 = 0" if "y mod 100 = 0"
  proof -
    from that have "100 dvd y" by (simp add: dvd_eq_mod_eq_0)
    then have "4 dvd y" by (rule dvd_trans [rotated]) simp
    then show ?thesis by (simp add: dvd_eq_mod_eq_0)
  qed
  show ?thesis
    unfolding DayFromYear_def DaysInYear_def a b c using d e by auto
qed

lemma InLeapYear_range: "InLeapYear y = 0 \<or> InLeapYear y = 1"
  by (simp add: InLeapYear_def DaysInYear_def)

lemma div_lower: "0 < n \<Longrightarrow> n * (a div n) \<le> (a::int)"
  using mult_div_mod_eq [of n a] pos_mod_sign [of n a] by linarith

lemma div_upper: "0 < n \<Longrightarrow> (a::int) < n * (a div n) + n"
  using mult_div_mod_eq [of n a] pos_mod_bound [of n a] by linarith

lemma DayFromYear_bounds:
  "146097 * y - 287811596 \<le> 400 * DayFromYear y"
  "400 * DayFromYear y \<le> 146097 * y - 287810501"
proof -
  define a b c where "a = (y - 1969) div 4" and "b = (y - 1901) div 100"
    and "c = (y - 1601) div 400"
  have f: "4 * a \<le> y - 1969" "y - 1969 < 4 * a + 4"
    "100 * b \<le> y - 1901" "y - 1901 < 100 * b + 100"
    "400 * c \<le> y - 1601" "y - 1601 < 400 * c + 400"
    unfolding a_def b_def c_def by (simp_all add: div_lower div_upper)
  have D: "400 * DayFromYear y = 146000 * y - 287620000 + 400 * a - 400 * b + 400 * c"
    by (simp add: DayFromYear_def a_def b_def c_def)
  show "146097 * y - 287811596 \<le> 400 * DayFromYear y"
    unfolding D using f by linarith
  show "400 * DayFromYear y \<le> 146097 * y - 287810501"
    unfolding D using f by linarith
qed

lemma DaysInYear_range: "365 \<le> DaysInYear y" "DaysInYear y \<le> 366"
  by (simp_all add: DaysInYear_def)

lemma YearFromDay_bracket:
  "DayFromYear (YearFromDay z) \<le> z" "z < DayFromYear (YearFromDay z + 1)"
proof -
  define y where "y = 1970 + (400 * z) div 146097"
  have lo: "146097 * y - 287811090 \<le> 400 * z" and hi: "400 * z < 146097 * y - 287664993"
    unfolding y_def using div_lower [of 146097 "400 * z"] div_upper [of 146097 "400 * z"]
    by simp_all
  have "400 * DayFromYear (y - 1) \<le> 146097 * y - 287956598"
    using DayFromYear_bounds(2) [of "y - 1"] by simp
  then have below: "DayFromYear (y - 1) \<le> z"
    using lo by linarith
  have "146097 * y - 287519402 \<le> 400 * DayFromYear (y + 2)"
    using DayFromYear_bounds(1) [of "y + 2"] by simp
  then have above: "z < DayFromYear (y + 2)"
    using hi by linarith
  have Y: "YearFromDay z =
      (if DayFromYear (y + 1) \<le> z then y + 1 else if DayFromYear y \<le> z then y else y - 1)"
    by (simp add: YearFromDay_def y_def Let_def)
  have two: "y + 1 + 1 = y + 2" and prev: "y - 1 + 1 = y" by simp_all
  show "DayFromYear (YearFromDay z) \<le> z"
    unfolding Y using below by simp
  show "z < DayFromYear (YearFromDay z + 1)"
    unfolding Y using above by (simp add: two prev)
qed

lemma DayWithinYear_range:
  "0 \<le> DayWithinYear z" "DayWithinYear z < 365 + InLeapYear (YearFromDay z)"
  using YearFromDay_bracket [of z] DayFromYear_succ [of "YearFromDay z"]
  by (simp_all add: DayWithinYear_def InLeapYear_def)

lemma YearFromDay_range:
  assumes "- 100000000 \<le> z" and "z \<le> 100000000"
  shows "- 271821 \<le> YearFromDay z" "YearFromDay z \<le> 275760"
proof -
  have "400 * DayFromYear (YearFromDay z + 1) \<le> 146097 * YearFromDay z - 287664404"
    using DayFromYear_bounds(2) [of "YearFromDay z + 1"] by simp
  then show "- 271821 \<le> YearFromDay z"
    using YearFromDay_bracket(2) [of z] assms(1) by linarith
  show "YearFromDay z \<le> 275760"
    using YearFromDay_bracket(1) [of z] DayFromYear_bounds(1) [of "YearFromDay z"] assms(2)
    by linarith
qed

subsection \<open>Months and dates\<close>

lemma month_date:
  assumes "0 \<le> DayWithinYear z" and "DayWithinYear z < 365 + InLeapYear (YearFromDay z)"
  shows "MonthFromDay z \<le> 11" and "1 \<le> DateFromDay z" and "DateFromDay z \<le> 31"
proof -
  have l: "InLeapYear (YearFromDay z) = 0 \<or> InLeapYear (YearFromDay z) = 1"
    by (rule InLeapYear_range)
  show "MonthFromDay z \<le> 11" by (simp add: MonthFromDay_def Let_def)
  show "1 \<le> DateFromDay z"
    using assms l by (auto simp: DateFromDay_def MonthFromDay_def month_start_def Let_def)
  show "DateFromDay z \<le> 31"
    using assms l by (auto simp: DateFromDay_def MonthFromDay_def month_start_def Let_def)
qed

lemma MakeDay_inverse:
  "MakeDay (YearFromDay z) (MonthFromDay z) (DateFromDay z) = z"
  by (simp add: MakeDay_def DateFromDay_def DayWithinYear_def)

subsection \<open>Digits and the date string\<close>

lemma digit_val_table:
  assumes "k < 10"
  shows "digit_val (''0123456789'' ! k) = Some k"
proof -
  from assms have "k = 0 \<or> k = 1 \<or> k = 2 \<or> k = 3 \<or> k = 4 \<or> k = 5 \<or> k = 6 \<or> k = 7 \<or> k = 8 \<or> k = 9"
    by arith
  then show ?thesis
    by (elim disjE) (simp_all add: digit_val_def)
qed

lemma digit_val_digit_char: "digit_val (digit_char n) = Some (n mod 10)"
  unfolding digit_char_def by (rule digit_val_table) simp

lemma length_pad: "length (pad k n) = k"
  by (induction k arbitrary: n) simp_all

lemma iso_date_length:
  "length (iso_date z) = (if 0 \<le> YearFromDay z \<and> YearFromDay z \<le> 9999 then 10 else 13)"
  by (simp add: iso_date_def year_string_def length_pad)

lemma digits_val_append:
  "digits_val acc (xs @ ys) =
     (case digits_val acc xs of None \<Rightarrow> None | Some a \<Rightarrow> digits_val a ys)"
  by (induction xs arbitrary: acc) (simp_all split: option.splits)

lemma digits_val_pad: "digits_val acc (pad k n) = Some (acc * 10 ^ k + n mod 10 ^ k)"
proof (induction k arbitrary: n)
  case 0
  then show ?case by simp
next
  case (Suc k)
  have "n mod (10 * 10 ^ k) = 10 * (n div 10 mod 10 ^ k) + n mod 10"
    by (rule mod_mult2_eq)
  then show ?case
    by (simp add: digits_val_append Suc.IH digit_val_digit_char algebra_simps)
qed

lemma digits_val_pad_small: "n < 10 ^ k \<Longrightarrow> digits_val 0 (pad k n) = Some n"
  by (simp add: digits_val_pad)

lemma parse_month_date_pad:
  assumes "m \<le> 11" and "1 \<le> d" and "d \<le> 31"
  shows "parse_month_date y (''-'' @ pad 2 (m + 1) @ ''-'' @ pad 2 (nat d))
         = TimeClip (MakeDay y m d * msPerDay)"
proof -
  have m: "digits_val 0 (pad 2 (m + 1)) = Some (m + 1)"
    using assms(1) by (intro digits_val_pad_small) simp
  have d: "digits_val 0 (pad 2 (nat d)) = Some (nat d)"
    using assms(3) by (intro digits_val_pad_small) simp
  have l: "length (pad 2 (m + 1)) = 2" "length (pad 2 (nat d)) = 2"
    by (simp_all only: length_pad)
  have n: "1 \<le> nat d" "nat d \<le> 31" "int (nat d) = d"
    using assms(2,3) by simp_all
  show ?thesis
    unfolding parse_month_date_def using assms(1) n m d l
    by (simp add: nth_append)
qed

lemma Date_parse_iso_date:
  assumes "- 100000000 \<le> z" and "z \<le> 100000000"
  shows "Date_parse (iso_date z) = Some (z * msPerDay)"
proof -
  define y where "y = YearFromDay z"
  define rest where
    "rest = ''-'' @ pad 2 (MonthFromDay z + 1) @ ''-'' @ pad 2 (nat (DateFromDay z))"
  have md: "MonthFromDay z \<le> 11" "1 \<le> DateFromDay z" "DateFromDay z \<le> 31"
    using month_date [OF DayWithinYear_range] by blast+
  have clip: "TimeClip (z * msPerDay) = Some (z * msPerDay)"
    using assms by (simp add: TimeClip_def maxTime_def msPerDay_def abs_le_iff)
  have rest: "parse_month_date y rest = Some (z * msPerDay)"
    unfolding rest_def y_def parse_month_date_pad [OF md] MakeDay_inverse by (rule clip)
  have lr: "length rest = 6" by (simp add: rest_def length_pad)
  have yr: "- 271821 \<le> y" "y \<le> 275760"
    unfolding y_def using YearFromDay_range [OF assms] by blast+
  have iso: "iso_date z = year_string y @ rest"
    by (simp add: iso_date_def y_def rest_def)
  show ?thesis
  proof (cases "0 \<le> y \<and> y \<le> 9999")
    case True
    then have ys: "year_string y = pad 4 (nat y)" by (simp add: year_string_def)
    have "nat y < 10000" using True by linarith
    then have dv: "digits_val 0 (pad 4 (nat y)) = Some (nat y)"
      by (intro digits_val_pad_small) simp
    show ?thesis
      unfolding iso ys Date_parse_def using True dv rest lr
      by (simp add: length_pad)
  next
    case False
    define sg where "sg = (if y < 0 then CHR ''-'' else CHR ''+'')"
    have "year_string y = (if y < 0 then CHR ''-'' else CHR ''+'') # pad 6 (nat \<bar>y\<bar>)"
      unfolding year_string_def using False by (simp only: if_False)
    then have ys: "year_string y = sg # pad 6 (nat \<bar>y\<bar>)"
      by (simp only: sg_def)
    have "nat \<bar>y\<bar> < 1000000" using yr by linarith
    then have dv: "digits_val 0 (pad 6 (nat \<bar>y\<bar>)) = Some (nat \<bar>y\<bar>)"
      by (intro digits_val_pad_small) simp
    have nz: "nat \<bar>y\<bar> \<noteq> 0" using False by auto
    have sgn: "(if sg = CHR ''-'' then - int (nat \<bar>y\<bar>) else int (nat \<bar>y\<bar>)) = y"
      by (simp add: sg_def)
    show ?thesis
      unfolding iso ys Date_parse_def using dv rest lr nz sgn
      by (simp add: length_pad sg_def)
  qed
qed

lemma iso_date_inj:
  assumes "- 100000000 \<le> z" "z \<le> 100000000" "- 100000000 \<le> z'" "z' \<le> 100000000"
    and "iso_date z = iso_date z'"
  shows "z = z'"
proof -
  have "Some (z * msPerDay) = Date_parse (iso_date z)"
    by (simp only: Date_parse_iso_date [OF assms(1,2)])
  also have "\<dots> = Date_parse (iso_date z')"
    by (simp only: assms(5))
  also have "\<dots> = Some (z' * msPerDay)"
    by (simp only: Date_parse_iso_date [OF assms(3,4)])
  finally have "z * 86400000 = z' * 86400000"
    by (simp only: msPerDay_def option.inject)
  then show ?thesis by simp
qed


section \<open>The per-day fold\<close>

lemma punch_step_eq_spec:
  "st \<noteq> Some 0 \<Longrightarrow> punch_step (tot, st) p = spec_punch_step (tot, st) p"
  by (cases "type p"; cases st) (auto simp: truthy_def)

lemma punch_step_IN: "type p = IN \<Longrightarrow> punch_step (tot, st) p = (tot, Some (timestamp p))"
  by simp

lemma punch_step_OUT_open:
  "type p = OUT \<Longrightarrow> s \<noteq> 0 \<Longrightarrow> punch_step (tot, Some s) p = (tot + (timestamp p - s), None)"
  by (simp add: truthy_def)

lemma punch_step_OUT_closed:
  "type p = OUT \<Longrightarrow> punch_step (tot, None) p = (tot, None)"
  by (simp add: truthy_def)

lemma punch_step_OUT_zero:
  "type p = OUT \<Longrightarrow> punch_step (tot, Some 0) p = (tot, Some 0)"
  by (simp add: truthy_def)

lemma paired_fold:
  "paired xs \<Longrightarrow> \<forall>p \<in> set xs. type p = IN \<longrightarrow> timestamp p \<noteq> 0 \<Longrightarrow>
   foldl punch_step (tot, st) xs = (tot + pair_sum xs, if xs = [] then st else None)"
proof (induction xs arbitrary: tot st rule: paired.induct)
  case 1
  then show ?case by simp
next
  case (2 p)
  then show ?case by simp
next
  case (3 p q r)
  have p: "type p = IN" and q: "type q = OUT" and r: "paired r"
    using "3.prems"(1) by simp_all
  have nz: "timestamp p \<noteq> 0" using "3.prems"(2) p by simp
  have step: "punch_step (punch_step (tot, st) p) q = (tot + (timestamp q - timestamp p), None)"
    using p q nz by (simp add: truthy_def)
  have "foldl punch_step (tot, st) (p # q # r)
        = foldl punch_step (tot + (timestamp q - timestamp p), None) r"
    using step by simp
  also have "\<dots> = (tot + (timestamp q - timestamp p) + pair_sum r, if r = [] then None else None)"
    using "3.IH" [OF r] "3.prems"(2) by simp
  finally show ?case by simp
qed

lemma paired_day_total_ms:
  assumes "paired (punches w)"
    and "\<forall>p \<in> set (punches w). type p = IN \<longrightarrow> timestamp p \<noteq> 0"
  shows "day_total_ms now w = pair_sum (punches w)"
  using paired_fold [OF assms, of 0 None] by (simp add: day_total_ms_def truthy_def)

lemma fold_nonneg:
  "sorted (map timestamp xs) \<Longrightarrow> 0 \<le> tot \<Longrightarrow>
   (\<forall>s. st = Some s \<longrightarrow> (\<forall>p \<in> set xs. s \<le> timestamp p)) \<Longrightarrow>
   foldl punch_step (tot, st) xs = (tot', st') \<Longrightarrow>
   0 \<le> tot' \<and> (\<forall>s. st' = Some s \<longrightarrow>
                  st = Some s \<or> (\<exists>p \<in> set xs. type p = IN \<and> timestamp p = s))"
proof (induction xs arbitrary: tot st)
  case Nil
  then show ?case by simp
next
  case (Cons p xs)
  obtain tot1 st1 where s1: "punch_step (tot, st) p = (tot1, st1)" by fastforce
  have sorted': "sorted (map timestamp xs)" and le: "\<forall>q \<in> set xs. timestamp p \<le> timestamp q"
    using Cons.prems(1) by auto
  have tot1: "0 \<le> tot1"
    using s1 Cons.prems(2,3) by (auto simp: truthy_def split: if_splits option.splits)
  have st1: "\<forall>s. st1 = Some s \<longrightarrow> (st = Some s \<or> (type p = IN \<and> timestamp p = s))"
    using s1 by (auto simp: truthy_def split: if_splits option.splits)
  have bound: "\<forall>s. st1 = Some s \<longrightarrow> (\<forall>q \<in> set xs. s \<le> timestamp q)"
    using st1 le Cons.prems(3) by auto
  have f: "foldl punch_step (tot1, st1) xs = (tot', st')"
    using Cons.prems(4) s1 by simp
  from Cons.IH [OF sorted' tot1 bound f] st1 show ?case by auto
qed

lemma toFixed_nonneg: "0 \<le> x \<Longrightarrow> 0 \<le> toFixed f x"
  by (simp add: toFixed_def)

lemma sorted_day:
  assumes "workDaysData now ps = Inr days" and "w \<in> set days"
  shows "sorted (map timestamp (punches w))"
  unfolding workDaysData_day(1) [OF assms] sortedPunches_def
  by (intro sorted_filter sorted_sort_key)

lemma day_total_ms_nonneg:
  assumes srt: "sorted (map timestamp (punches w))"
    and le: "date w = today now \<Longrightarrow>
             \<forall>p \<in> set (punches w). type p = IN \<longrightarrow> timestamp p \<le> now"
  shows "0 \<le> day_total_ms now w"
proof -
  obtain tot st where f: "foldl punch_step (0, None) (punches w) = (tot, st)" by fastforce
  from fold_nonneg [OF srt _ _ f] have tot: "0 \<le> tot"
    and st: "\<And>s. st = Some s \<Longrightarrow> \<exists>p \<in> set (punches w). type p = IN \<and> timestamp p = s"
    by auto
  show ?thesis
  proof (cases "truthy st \<and> date w = today now")
    case False
    then show ?thesis using f tot by (auto simp: day_total_ms_def)
  next
    case True
    then obtain s where s: "st = Some s" by (cases st) (auto simp: truthy_def)
    from st [OF s] le True have "s \<le> now" by auto
    then show ?thesis using f tot s by (simp add: day_total_ms_def)
  qed
qed

section \<open>Per-day hour computation\<close>

lemma paired_day_total:
  assumes "workDaysData now ps = Inr days" and "w \<in> set days"
    and "paired (punches w)"
    and "\<forall>p \<in> set (punches w). type p = IN \<longrightarrow> timestamp p \<noteq> 0"
  shows "totalHours w = toFixed 2 (of_int (pair_sum (punches w)) / 3600000)"
  unfolding workDaysData_day(2) [OF assms(1,2)] paired_day_total_ms [OF assms(3,4)] ..

lemma toISOString_date_offset:
  assumes "- 100000000 \<le> z" and "z < 100000000" and "0 \<le> k" and "k < 86400000"
  shows "toISOString_date (z * 86400000 + k) = Inr (iso_date z)"
proof -
  have "Day (z * 86400000 + k) = z"
    using assms(3,4) by (simp add: Day_def msPerDay_def div_pos_pos_trivial)
  moreover have "- 8640000000000000 \<le> z * 86400000 + k" "z * 86400000 + k \<le> 8640000000000000"
    using assms by linarith+
  ultimately show ?thesis
    by (simp add: toISOString_date_def maxTime_def abs_le_iff)
qed

lemma nine_to_five_day:
  assumes "- 100000000 \<le> z" and "z < 100000000"
  shows "workDaysData now
     [\<lparr>id' = i4, type = OUT, timestamp = z * 86400000 + 61200000\<rparr>,
      \<lparr>id' = i3, type = IN, timestamp = z * 86400000 + 46800000\<rparr>,
      \<lparr>id' = i2, type = OUT, timestamp = z * 86400000 + 43200000\<rparr>,
      \<lparr>id' = i1, type = IN, timestamp = z * 86400000 + 32400000\<rparr>]
   = Inr [\<lparr>date = iso_date z,
           punches =
             [\<lparr>id' = i1, type = IN, timestamp = z * 86400000 + 32400000\<rparr>,
              \<lparr>id' = i2, type = OUT, timestamp = z * 86400000 + 43200000\<rparr>,
              \<lparr>id' = i3, type = IN, timestamp = z * 86400000 + 46800000\<rparr>,
              \<lparr>id' = i4, type = OUT, timestamp = z * 86400000 + 61200000\<rparr>],
           totalHours = 7\<rparr>]"
proof -
  note d = toISOString_date_offset [OF assms]
  have nz: "z * 86400000 + 32400000 \<noteq> 0" "z * 86400000 + 46800000 \<noteq> 0"
    by (cases "0 \<le> z"; simp; linarith)+
  show ?thesis
    using nz
    by (simp add: workDaysData_def sortedPunches_def d calc_hours_def day_total_ms_def
        truthy_def toFixed_def)
qed

lemma open_session_credit:
  assumes "foldl punch_step (0, None) (punches w) = (tot, Some s)" and "s \<noteq> 0"
  shows "day_total_ms now w = (if date w = today now then tot + (now - s) else tot)"
  using assms by (simp add: day_total_ms_def truthy_def)

lemma closed_session_no_credit:
  assumes "foldl punch_step (0, None) (punches w) = (tot, None)"
  shows "day_total_ms now w = tot"
  using assms by (simp add: day_total_ms_def truthy_def)

text \<open>
  Claim C1. A day made only of matched IN-then-OUT pairs should total the sum of
  \<open>OUT\<^sub>i - IN\<^sub>i\<close>, in hours rounded to two decimals. The engine does so whenever no IN of
  the day has timestamp 0 (\<open>paired_day_total\<close>, and \<open>nine_to_five_day\<close> for the 7.00 hours
  scenario). At the pair IN at 0, OUT at 3600000 the pair sum is one hour, and the engine's
  total is 0: the start value 0 fails the truthiness test of the OUT branch.
\<close>

theorem paired_day_zero_start_loses_hours:
  "workDaysData now
     [\<lparr>id' = ''b'', type = OUT, timestamp = 3600000\<rparr>,
      \<lparr>id' = ''a'', type = IN, timestamp = 0\<rparr>]
   = Inr [\<lparr>date = ''1970-01-01'',
           punches = [\<lparr>id' = ''a'', type = IN, timestamp = 0\<rparr>,
                      \<lparr>id' = ''b'', type = OUT, timestamp = 3600000\<rparr>],
           totalHours = 0\<rparr>]
   \<and> paired [\<lparr>id' = ''a'', type = IN, timestamp = 0\<rparr>,
              \<lparr>id' = ''b'', type = OUT, timestamp = 3600000\<rparr>]
   \<and> toFixed 2 (of_int (pair_sum [\<lparr>id' = ''a'', type = IN, timestamp = 0\<rparr>,
              \<lparr>id' = ''b'', type = OUT, timestamp = 3600000\<rparr>]) / 3600000) = 1"
  by (simp add: workDaysData_def sortedPunches_def toISOString_date_def maxTime_def Day_def
      msPerDay_def iso_date_0 calc_hours_def day_total_ms_def truthy_def toFixed_def)

text \<open>
  Claim C2. A session still open at the end of the current date should be credited with
  \<open>now - start\<close>, and one on a past date with nothing. The engine does so for every start
  other than 0 (\<open>open_session_credit\<close>). With the only punch an IN at 0 and the clock at
  3600000, the day is the current date and the session is open for one hour, yet the day's
  total is 0: the start value 0 fails the truthiness test after the loop.
\<close>

theorem open_session_zero_start_not_credited:
  "workDaysData 3600000 [\<lparr>id' = ''a'', type = IN, timestamp = 0\<rparr>]
   = Inr [\<lparr>date = today 3600000,
           punches = [\<lparr>id' = ''a'', type = IN, timestamp = 0\<rparr>],
           totalHours = 0\<rparr>]
   \<and> toFixed 2 (of_int (3600000 - 0) / 3600000) = 1"
  by (simp add: workDaysData_def sortedPunches_def toISOString_date_def maxTime_def Day_def
      msPerDay_def iso_date_0 calc_hours_def day_total_ms_def truthy_def toFixed_def today_def)

text \<open>
  Claim C3. An OUT with an open session start should add \<open>timestamp - start\<close> and clear
  the start; an OUT with no open start is a no-op. The engine's step agrees with that
  reading for every state but an open start of 0 (\<open>punch_step_eq_spec\<close>,
  \<open>punch_step_OUT_open\<close>, \<open>punch_step_OUT_closed\<close>). With the start 0 open, an OUT at 3600000
  leaves the state as it was, where the specified step adds 3600000 ms and clears the start.
\<close>

theorem out_after_zero_start_is_noop:
  "punch_step (0, Some 0) \<lparr>id' = ''b'', type = OUT, timestamp = 3600000\<rparr> = (0, Some 0)
   \<and> spec_punch_step (0, Some 0) \<lparr>id' = ''b'', type = OUT, timestamp = 3600000\<rparr>
       = (3600000, None)"
  by (simp add: truthy_def)

text \<open>
  Claim C10. When a day starts with an IN at timestamp 0, the OUT that follows adds no
  duration and leaves the start value 0 in place; a day made of that IN and an OUT at \<open>t\<close>
  (on the same date, 1970-01-01) has \<open>totalHours = 0\<close>.
\<close>

theorem zero_start_out_adds_nothing:
  assumes "type p = IN" and "timestamp p = 0" and "type q = OUT"
  shows "punch_step (punch_step (tot, st) p) q = (tot, Some 0)
    \<and> foldl punch_step (0, None) (p # q # rest) = foldl punch_step (0, Some 0) rest
    \<and> (0 \<le> timestamp q \<and> timestamp q < msPerDay \<longrightarrow>
         workDaysData now [p, q]
         = Inr [\<lparr>date = ''1970-01-01'', punches = [p, q], totalHours = 0\<rparr>])"
  using assms
  by (simp add: workDaysData_def sortedPunches_def toISOString_date_def maxTime_def Day_first
      iso_date_0 calc_hours_def day_total_ms_def truthy_def toFixed_def msPerDay_def)

theorem zero_start_out_adds_nothing_witness:
  "punch_step (punch_step (5, None) \<lparr>id' = ''a'', type = IN, timestamp = 0\<rparr>)
     \<lparr>id' = ''b'', type = OUT, timestamp = 7200000\<rparr> = (5, Some 0)
   \<and> workDaysData 1700000000000
        [\<lparr>id' = ''a'', type = IN, timestamp = 0\<rparr>,
         \<lparr>id' = ''b'', type = OUT, timestamp = 7200000\<rparr>]
      = Inr [\<lparr>date = ''1970-01-01'',
              punches = [\<lparr>id' = ''a'', type = IN, timestamp = 0\<rparr>,
                         \<lparr>id' = ''b'', type = OUT, timestamp = 7200000\<rparr>],
              totalHours = 0\<rparr>]"
  using zero_start_out_adds_nothing
    [of "\<lparr>id' = ''a'', type = IN, timestamp = 0\<rparr>"
        "\<lparr>id' = ''b'', type = OUT, timestamp = 7200000\<rparr>" 5 None "[]" 1700000000000]
  by (simp add: msPerDay_def)

text \<open>
  Claim C6. Every WorkDay should have a non-negative \<open>totalHours\<close>, for every event list
  and clock reading. It fails for a punch in the future of the clock: an IN one hour ahead
  of \<open>now\<close> on the current date is credited \<open>now - start = -1\<close> hour, and nothing clamps it.
\<close>

theorem future_punch_negative_total:
  "workDaysData 1700000000000 [\<lparr>id' = ''a'', type = IN, timestamp = 1700003600000\<rparr>]
   = Inr [\<lparr>date = ''2023-11-14'',
           punches = [\<lparr>id' = ''a'', type = IN, timestamp = 1700003600000\<rparr>],
           totalHours = - 1\<rparr>]"
  by code_simp

text \<open>
  Claim C6, amended. For every event list, in any order and with duplicates, and every
  clock reading \<open>now\<close> such that no IN punch dated on the current date is later than \<open>now\<close>,
  every WorkDay produced has a non-negative \<open>totalHours\<close>.
\<close>

theorem totalHours_nonneg:
  assumes "workDaysData now ps = Inr days"
    and "\<forall>p \<in> set ps. type p = IN \<and> iso_date (Day (timestamp p)) = today now
           \<longrightarrow> timestamp p \<le> now"
    and "w \<in> set days"
  shows "0 \<le> totalHours w"
proof -
  have le: "\<forall>p \<in> set (punches w). type p = IN \<longrightarrow> timestamp p \<le> now"
    if today: "date w = today now"
  proof (intro ballI impI)
    fix p assume p: "p \<in> set (punches w)" and i: "type p = IN"
    from p have "p \<in> set ps" and k: "toISOString_date (timestamp p) = Inr (date w)"
      unfolding workDaysData_day(1) [OF assms(1,3)] by (simp_all add: sortedPunches_def)
    moreover from k have "iso_date (Day (timestamp p)) = date w"
      by (auto simp: toISOString_date_def split: if_splits)
    ultimately show "timestamp p \<le> now" using assms(2) i today by auto
  qed
  from day_total_ms_nonneg [OF sorted_day [OF assms(1,3)] le]
  have "0 \<le> (of_int (day_total_ms now w) :: real) / 3600000" by simp
  then show ?thesis
    unfolding workDaysData_day(2) [OF assms(1,3)] by (rule toFixed_nonneg)
qed

theorem totalHours_nonneg_witness:
  "workDaysData 1700000000000
     [\<lparr>id' = ''b'', type = OUT, timestamp = 1699999100000\<rparr>,
      \<lparr>id' = ''a'', type = IN, timestamp = 1699996400000\<rparr>]
   = Inr [\<lparr>date = ''2023-11-14'',
           punches = [\<lparr>id' = ''a'', type = IN, timestamp = 1699996400000\<rparr>,
                      \<lparr>id' = ''b'', type = OUT, timestamp = 1699999100000\<rparr>],
           totalHours = 3 / 4\<rparr>]
   \<and> 0 \<le> totalHours \<lparr>date = ''2023-11-14'',
           punches = [\<lparr>id' = ''a'', type = IN, timestamp = 1699996400000\<rparr>,
                      \<lparr>id' = ''b'', type = OUT, timestamp = 1699999100000\<rparr>],
           totalHours = 3 / 4\<rparr>"
proof -
  let ?ps = "[\<lparr>id' = ''b'', type = OUT, timestamp = 1699999100000\<rparr>,
      \<lparr>id' = ''a'', type = IN, timestamp = 1699996400000\<rparr>]"
  let ?w = "\<lparr>date = ''2023-11-14'',
           punches = [\<lparr>id' = ''a'', type = IN, timestamp = 1699996400000\<rparr>,
                      \<lparr>id' = ''b'', type = OUT, timestamp = 1699999100000\<rparr>],
           totalHours = 3 / 4\<rparr>"
  have h1: "workDaysData 1700000000000 ?ps = Inr [?w]" by code_simp
  have h2: "\<forall>p \<in> set ?ps. type p = IN \<and> iso_date (Day (timestamp p)) = today 1700000000000
      \<longrightarrow> timestamp p \<le> 1700000000000" by simp
  have h3: "?w \<in> set [?w]" by simp
  from totalHours_nonneg [OF h1 h2 h3] h1 show ?thesis by simp
qed

section \<open>Grouping by date\<close>

text \<open>
  Claim C4. A punch should be filed under the calendar date of its timestamp read in the
  local time zone. The key is the UTC date instead: a punch at 1970-01-01T20:00Z is filed
  under 1970-01-01, while in a zone five and a half hours ahead of UTC its local date is
  1970-01-02.
\<close>

theorem bucket_key_not_local_date:
  "workDaysData 86400000 [\<lparr>id' = ''a'', type = IN, timestamp = 72000000\<rparr>]
   = Inr [\<lparr>date = ''1970-01-01'',
           punches = [\<lparr>id' = ''a'', type = IN, timestamp = 72000000\<rparr>],
           totalHours = 0\<rparr>]
   \<and> local_date 19800000 72000000 = ''1970-01-02''"
  by code_simp

lemma expanded_year_key: "toISOString_date 253402300800000 = Inr ''+010000-01-01''"
  by code_simp

text \<open>
  Claim C4, amended. Every punch is filed in the WorkDay whose key is the UTC calendar date
  of its timestamp, the date part of \<open>toISOString\<close> (\<open>YYYY-MM-DD\<close>, and the expanded form
  \<open>\<plusminus>YYYYYY-MM-DD\<close> for a year outside 0 to 9999), and in no WorkDay with another key.
\<close>

theorem bucket_keyed_by_utc_date:
  assumes "workDaysData now ps = Inr days" and "p \<in> set ps"
  shows "(\<exists>w \<in> set days. date w = iso_date (Day (timestamp p)) \<and> p \<in> set (punches w))
    \<and> (\<forall>w \<in> set days. p \<in> set (punches w) \<longrightarrow> date w = iso_date (Day (timestamp p)))"
proof -
  have v: "\<bar>timestamp p\<bar> \<le> maxTime" using workDaysData_valid [OF assms(1)] assms(2) by blast
  then have k: "toISOString_date (timestamp p) = Inr (iso_date (Day (timestamp p)))"
    by (simp add: toISOString_date_def)
  then have "iso_date (Day (timestamp p)) \<in> set (map date days)"
    unfolding workDaysData_dates(2) [OF assms(1)] using assms(2) by blast
  then obtain w where w: "w \<in> set days" "date w = iso_date (Day (timestamp p))" by auto
  have "p \<in> set (punches w)"
    unfolding workDaysData_day(1) [OF assms(1) w(1)] using k w(2) assms(2)
    by (simp add: sortedPunches_def)
  with w have a: "\<exists>w \<in> set days. date w = iso_date (Day (timestamp p)) \<and> p \<in> set (punches w)"
    by blast
  have b: "\<forall>w \<in> set days. p \<in> set (punches w) \<longrightarrow> date w = iso_date (Day (timestamp p))"
  proof (intro ballI impI)
    fix u assume u: "u \<in> set days" "p \<in> set (punches u)"
    from u(2) have "toISOString_date (timestamp p) = Inr (date u)"
      unfolding workDaysData_day(1) [OF assms(1) u(1)] by simp
    with k show "date u = iso_date (Day (timestamp p))" by simp
  qed
  from a b show ?thesis by blast
qed

theorem bucket_keyed_by_utc_date_witness:
  "workDaysData 86400000 [\<lparr>id' = ''a'', type = IN, timestamp = 72000000\<rparr>]
   = Inr [\<lparr>date = ''1970-01-01'',
           punches = [\<lparr>id' = ''a'', type = IN, timestamp = 72000000\<rparr>],
           totalHours = 0\<rparr>]
   \<and> iso_date (Day (timestamp \<lparr>id' = ''a'', type = IN, timestamp = 72000000\<rparr>))
       = ''1970-01-01''"
proof -
  let ?p = "\<lparr>id' = ''a'', type = IN, timestamp = 72000000\<rparr>"
  let ?w = "\<lparr>date = ''1970-01-01'', punches = [?p], totalHours = 0\<rparr>"
  have h1: "workDaysData 86400000 [?p] = Inr [?w]" by code_simp
  have h2: "?p \<in> set [?p]" by simp
  from bucket_keyed_by_utc_date [OF h1 h2] h1 show ?thesis by simp
qed

section \<open>Current status\<close>

text \<open>
  Claim C7. The status is PUNCHED_IN exactly when the punch list is non-empty and its first
  element, the most recently created punch, is an IN; in every other case, the empty list
  included, it is PUNCHED_OUT.
\<close>

theorem currentStatus_iff:
  "(currentStatus ps = PUNCHED_IN \<longleftrightarrow> ps \<noteq> [] \<and> type (hd ps) = IN)
   \<and> (currentStatus ps = PUNCHED_OUT \<longleftrightarrow> \<not> (ps \<noteq> [] \<and> type (hd ps) = IN))"
  by (simp add: currentStatus_def)

lemma currentStatus_handlePunch:
  "currentStatus (handlePunch uuid now ty prev) = (if ty = IN then PUNCHED_IN else PUNCHED_OUT)"
  by (simp add: currentStatus_def handlePunch_def)

section \<open>Weekly statistics\<close>









section \<open>JSON: numbers print and lex back\<close>

lemma is_digit_digit_char: "is_digit (digit_char n)"
  by (simp add: is_digit_def digit_val_digit_char)

lemma digit_val_code: "digit_val c = Some d \<Longrightarrow> of_char c = 48 + d"
  by (auto simp: digit_val_def Let_def split: if_splits)

lemma of_char_digit_char: "(of_char (digit_char n) :: nat) = 48 + n mod 10"
  by (rule digit_val_code [OF digit_val_digit_char])

lemma is_digit_code: "is_digit c \<longleftrightarrow> 48 \<le> (of_char c :: nat) \<and> (of_char c :: nat) \<le> 57"
  by (simp add: is_digit_def digit_val_def Let_def)

lemma show_nat_digits: "\<forall>c \<in> set (show_nat n). is_digit c"
  by (induction n rule: show_nat.induct) (subst show_nat.simps, simp add: is_digit_digit_char)

lemma show_nat_nonempty: "show_nat n \<noteq> []"
  by (subst show_nat.simps) simp

lemma nat_of_digits_snoc:
  "nat_of_digits (ds @ [c]) = 10 * nat_of_digits ds + (of_char c - 48)"
  by (simp add: nat_of_digits_def)

lemma nat_of_digits_show_nat: "nat_of_digits (show_nat n) = n"
proof (induction n rule: show_nat.induct)
  case (1 n)
  show ?case
  proof (cases "n < 10")
    case True
    then show ?thesis
      by (subst show_nat.simps) (simp add: nat_of_digits_def of_char_digit_char)
  next
    case False
    then show ?thesis
      using 1 by (subst show_nat.simps) (simp add: nat_of_digits_snoc of_char_digit_char)
  qed
qed

lemma digit_char_zero: "digit_char k = CHR ''0'' \<Longrightarrow> k mod 10 = 0"
  using of_char_digit_char [of k] by simp

lemma show_nat_no_leading_zero: "1 < length (show_nat n) \<Longrightarrow> hd (show_nat n) \<noteq> CHR ''0''"
proof (induction n rule: show_nat.induct)
  case (1 n)
  show ?case
  proof (cases "n < 10")
    case True
    then have "length (show_nat n) = 1" by (subst show_nat.simps) simp
    with 1(2) show ?thesis by simp
  next
    case False
    then have e: "show_nat n = show_nat (n div 10) @ [digit_char n]"
      by (subst show_nat.simps) simp
    have h: "hd (show_nat n) = hd (show_nat (n div 10))"
      unfolding e using show_nat_nonempty by simp
    show ?thesis
    proof (cases "n div 10 < 10")
      case True
      then have "show_nat (n div 10) = [digit_char (n div 10)]"
        by (subst show_nat.simps) simp
      moreover have "n div 10 mod 10 \<noteq> 0" using True False by simp
      ultimately show ?thesis unfolding h using digit_char_zero by fastforce
    next
      case F: False
      then have "1 < length (show_nat (n div 10))"
        by (subst show_nat.simps) (simp add: show_nat_nonempty Suc_lessI)
      from 1(1) [OF False this] show ?thesis unfolding h .
    qed
  qed
qed

lemma takeWhile_show_nat:
  "\<not> is_digit c \<Longrightarrow> takeWhile is_digit (show_nat n @ c # r) = show_nat n"
  using show_nat_digits by (simp add: takeWhile_append2)

lemma dropWhile_show_nat:
  "\<not> is_digit c \<Longrightarrow> dropWhile is_digit (show_nat n @ c # r) = c # r"
  using show_nat_digits by (simp add: dropWhile_append2)

lemma show_nat_hd_not_minus: "show_nat n = d # ds \<Longrightarrow> d \<noteq> CHR ''-''"
proof
  assume a: "show_nat n = d # ds" and "d = CHR ''-''"
  then have "is_digit CHR ''-''" using show_nat_digits [of n] by simp
  then show False by (simp add: is_digit_code)
qed

lemma lex_number_show_nat:
  assumes "\<not> is_digit c" and "c \<noteq> CHR ''.''" and "c \<noteq> CHR ''e''" and "c \<noteq> CHR ''E''"
  shows "lex_number (show_nat n @ c # r) = Some (real n, c # r)"
proof -
  obtain d ds where s: "show_nat n = d # ds"
    using show_nat_nonempty by (cases "show_nat n") auto
  have d: "d \<noteq> CHR ''-''" by (rule show_nat_hd_not_minus [OF s])
  have t: "takeWhile is_digit (d # ds @ c # r) = d # ds"
    and dr: "dropWhile is_digit (d # ds @ c # r) = c # r"
    using takeWhile_show_nat [OF assms(1), of n r] dropWhile_show_nat [OF assms(1), of n r]
    unfolding s by simp_all
  have z: "\<not> (1 < length (d # ds) \<and> hd (d # ds) = CHR ''0'')"
    using show_nat_no_leading_zero [of n] unfolding s by blast
  have f: "lex_frac (c # r) = Some ([], c # r)"
    using assms(2) by (simp add: lex_frac_def)
  have x: "lex_exp (c # r) = Some (0, c # r)"
    using assms(3,4) by (simp add: lex_exp_def)
  have v: "nat_of_digits (d # ds) = n"
    using nat_of_digits_show_nat [of n] unfolding s .
  have "lex_number (d # ds @ c # r) = Some (real n, c # r)"
    unfolding lex_number_def using d z
    by (simp only: list.case if_False prod.case Let_def t dr f x option.case append_Nil2 v
        list.size pow10_def) simp
  then show ?thesis unfolding s by simp
qed

lemma lex_number_minus:
  assumes "d \<noteq> CHR ''-''"
  shows "lex_number (CHR ''-'' # d # ds) =
     (case lex_number (d # ds) of None \<Rightarrow> None | Some (x, r) \<Rightarrow> Some (- x, r))"
  using assms by (simp add: lex_number_def Let_def split: option.splits prod.splits)

lemma lex_number_show_int:
  assumes "\<not> is_digit c" and "c \<noteq> CHR ''.''" and "c \<noteq> CHR ''e''" and "c \<noteq> CHR ''E''"
  shows "lex_number (show_int i @ c # r) = Some (of_int i, c # r)"
proof (cases "i < 0")
  case False
  then show ?thesis
    using lex_number_show_nat [OF assms, of "nat i" r] by (simp add: show_int_def)
next
  case True
  define n where "n = nat (- i)"
  obtain d ds where s: "show_nat n = d # ds"
    using show_nat_nonempty by (cases "show_nat n") auto
  have d: "d \<noteq> CHR ''-''" by (rule show_nat_hd_not_minus [OF s])
  have "lex_number (d # (ds @ c # r)) = Some (real n, c # r)"
    using lex_number_show_nat [OF assms, of n r] unfolding s by simp
  then have "lex_number (CHR ''-'' # d # (ds @ c # r)) = Some (- real n, c # r)"
    unfolding lex_number_minus [OF d] by simp
  moreover have "- real n = of_int i" using True by (simp add: n_def)
  ultimately show ?thesis using True by (simp add: show_int_def n_def [symmetric] s)
qed

section \<open>JSON: strings escape and lex back\<close>

lemma hex_val_table:
  assumes "k < 16"
  shows "hex_val (''0123456789abcdef'' ! k) = Some k"
proof -
  have m: "map hex_val ''0123456789abcdef'' = map Some [0..<16]"
    by code_simp
  have "hex_val (''0123456789abcdef'' ! k) = map hex_val ''0123456789abcdef'' ! k"
    using assms by (subst nth_map) simp_all
  also have "\<dots> = Some k"
    unfolding m using assms by simp
  finally show ?thesis .
qed

lemma hex_val_hex_char: "hex_val (hex_char n) = Some (n mod 16)"
  unfolding hex_char_def by (rule hex_val_table) simp

lemma hex_val_zero: "hex_val CHR ''0'' = Some 0"
  by (simp add: hex_val_def)

lemma hex4_control:
  assumes "n < 32"
  shows "hex4 CHR ''0'' CHR ''0'' (hex_char (n div 16)) (hex_char n) = Some n"
proof -
  have "n div 16 mod 16 * 16 + n mod 16 = n" using assms by simp
  then show ?thesis
    by (simp add: hex4_def hex_val_zero hex_val_hex_char)
qed

lemma char_codes:
  "(of_char dquote :: nat) = 34" "(of_char bslash :: nat) = 92"
  by (simp_all add: dquote_def bslash_def)

lemma char_eq_code: "c = d \<longleftrightarrow> (of_char c :: nat) = of_char d"
  by simp

lemma bslash_not_dquote: "bslash \<noteq> dquote"
  by (simp add: char_eq_code [of bslash] char_codes)

lemma lex_string_simple_escape:
  assumes "unescape e = Some ch" and "e \<noteq> CHR ''u''"
  shows "lex_string (bslash # e # t) =
     (case lex_string t of None \<Rightarrow> None | Some (s, r) \<Rightarrow> Some (ch # s, r))"
  using assms by (simp add: bslash_not_dquote)

lemma lex_string_u_escape:
  assumes "hex4 a b c d = Some n" and "n < 256"
  shows "lex_string (bslash # CHR ''u'' # a # b # c # d # t) =
     (case lex_string t of None \<Rightarrow> None | Some (s, r) \<Rightarrow> Some (char_of n # s, r))"
  using assms by (simp add: bslash_not_dquote)

lemma lex_string_literal:
  assumes "c \<noteq> dquote" and "c \<noteq> bslash" and "32 \<le> (of_char c :: nat)"
  shows "lex_string (c # t) =
     (case lex_string t of None \<Rightarrow> None | Some (s, r) \<Rightarrow> Some (c # s, r))"
  using assms by simp

lemma unescape_values:
  "unescape dquote = Some dquote" "unescape bslash = Some bslash"
  "unescape CHR ''b'' = Some (char_of (8 :: nat))"
  "unescape CHR ''t'' = Some (char_of (9 :: nat))"
  "unescape CHR ''n'' = Some (char_of (10 :: nat))"
  "unescape CHR ''f'' = Some (char_of (12 :: nat))"
  "unescape CHR ''r'' = Some (char_of (13 :: nat))"
  "dquote \<noteq> CHR ''u''" "bslash \<noteq> CHR ''u''"
  by (simp_all add: unescape_def dquote_def bslash_def)

lemma lex_string_escape:
  "lex_string (escape_char c @ t) =
     (case lex_string t of None \<Rightarrow> None | Some (s, r) \<Rightarrow> Some (c # s, r))"
proof -
  define n where "n = (of_char c :: nat)"
  have c: "c = char_of n" by (simp add: n_def)
  have dq: "c = dquote \<longleftrightarrow> n = 34" and bs: "c = bslash \<longleftrightarrow> n = 92"
    unfolding n_def by (simp_all add: char_eq_code [of c] char_codes)
  have esc: "escape_char c =
      (if n = 34 then [bslash, dquote]
       else if n = 92 then [bslash, bslash]
       else if n = 8 then [bslash, CHR ''b'']
       else if n = 9 then [bslash, CHR ''t'']
       else if n = 10 then [bslash, CHR ''n'']
       else if n = 12 then [bslash, CHR ''f'']
       else if n = 13 then [bslash, CHR ''r'']
       else if n < 32 then [bslash, CHR ''u'', CHR ''0'', CHR ''0'', hex_char (n div 16), hex_char n]
       else [c])"
    unfolding escape_char_def Let_def n_def [symmetric] dq bs ..
  have simple: "lex_string (escape_char c @ t) =
      (case lex_string t of None \<Rightarrow> None | Some (s, r) \<Rightarrow> Some (c # s, r))"
    if "escape_char c = [bslash, e]" and "unescape e = Some c" and "e \<noteq> CHR ''u''" for e
    using lex_string_simple_escape [OF that(2,3), of t] by (simp only: that(1) append.simps)
  consider "n = 34" | "n = 92" | "n = 8" | "n = 9" | "n = 10" | "n = 12" | "n = 13"
    | "n < 32" "n \<noteq> 8" "n \<noteq> 9" "n \<noteq> 10" "n \<noteq> 12" "n \<noteq> 13"
    | "32 \<le> n" "n \<noteq> 34" "n \<noteq> 92"
    by linarith
  then show ?thesis
  proof cases
    case 1
    have e: "escape_char c = [bslash, dquote]" using 1 by (simp add: esc)
    have u: "unescape dquote = Some c" using 1 dq by (simp add: unescape_values)
    show ?thesis by (rule simple [OF e u]) (simp add: unescape_values)
  next
    case 2
    have e: "escape_char c = [bslash, bslash]" using 2 by (simp add: esc)
    have u: "unescape bslash = Some c" using 2 bs by (simp add: unescape_values)
    show ?thesis by (rule simple [OF e u]) (simp add: unescape_values)
  next
    case 3
    have e: "escape_char c = [bslash, CHR ''b'']" using 3 by (simp add: esc)
    have u: "unescape CHR ''b'' = Some c" using 3 c by (simp add: unescape_values)
    show ?thesis by (rule simple [OF e u]) (simp add: unescape_values)
  next
    case 4
    have e: "escape_char c = [bslash, CHR ''t'']" using 4 by (simp add: esc)
    have u: "unescape CHR ''t'' = Some c" using 4 c by (simp add: unescape_values)
    show ?thesis by (rule simple [OF e u]) (simp add: unescape_values)
  next
    case 5
    have e: "escape_char c = [bslash, CHR ''n'']" using 5 by (simp add: esc)
    have u: "unescape CHR ''n'' = Some c" using 5 c by (simp add: unescape_values)
    show ?thesis by (rule simple [OF e u]) (simp add: unescape_values)
  next
    case 6
    have e: "escape_char c = [bslash, CHR ''f'']" using 6 by (simp add: esc)
    have u: "unescape CHR ''f'' = Some c" using 6 c by (simp add: unescape_values)
    show ?thesis by (rule simple [OF e u]) (simp add: unescape_values)
  next
    case 7
    have e: "escape_char c = [bslash, CHR ''r'']" using 7 by (simp add: esc)
    have u: "unescape CHR ''r'' = Some c" using 7 c by (simp add: unescape_values)
    show ?thesis by (rule simple [OF e u]) (simp add: unescape_values)
  next
    case 8
    have "n < 256" using 8(1) by simp
    from lex_string_u_escape [OF hex4_control [OF 8(1)] this, of t]
    have "lex_string (bslash # CHR ''u'' # CHR ''0'' # CHR ''0'' # hex_char (n div 16) # hex_char n # t) =
      (case lex_string t of None \<Rightarrow> None | Some (s, r) \<Rightarrow> Some (c # s, r))"
      by (simp only: c [symmetric])
    moreover have "escape_char c
        = [bslash, CHR ''u'', CHR ''0'', CHR ''0'', hex_char (n div 16), hex_char n]"
      using 8 by (simp add: esc)
    ultimately show ?thesis by (simp only: append.simps)
  next
    case 9
    have "c \<noteq> dquote" "c \<noteq> bslash" using 9 by (simp_all add: dq bs)
    from lex_string_literal [OF this, of t] 9
    have "lex_string (c # t) =
      (case lex_string t of None \<Rightarrow> None | Some (s, r) \<Rightarrow> Some (c # s, r))"
      by (simp only: n_def)
    moreover have "escape_char c = [c]" using 9 by (simp add: esc)
    ultimately show ?thesis by (simp only: append.simps)
  qed
qed

lemma lex_string_escaped:
  "lex_string (concat (map escape_char s) @ dquote # r) = Some (s, r)"
  by (induction s) (simp_all add: lex_string_escape)

section \<open>JSON: a stringified punch list parses back\<close>

lemma lex_punct:
  "lex (CHR ''{'' # cs) = map_option (Cons LBrace) (lex cs)"
  "lex (CHR ''}'' # cs) = map_option (Cons RBrace) (lex cs)"
  "lex (CHR ''['' # cs) = map_option (Cons LBrack) (lex cs)"
  "lex (CHR '']'' # cs) = map_option (Cons RBrack) (lex cs)"
  "lex (CHR '':'' # cs) = map_option (Cons Colon) (lex cs)"
  "lex (CHR '','' # cs) = map_option (Cons Comma) (lex cs)"
  by (simp_all add: is_ws_def)

lemma lex_dquote:
  "lex (dquote # cs) =
     (case lex_string cs of None \<Rightarrow> None | Some (s, r) \<Rightarrow> map_option (Cons (TStr s)) (lex r))"
  by (simp add: is_ws_def dquote_def)

lemma lex_quote: "lex (quote s @ r) = map_option (Cons (TStr s)) (lex r)"
  by (simp add: quote_def lex_dquote lex_string_escaped del: lex.simps)

lemma lex_number_start:
  assumes "d = CHR ''-'' \<or> is_digit d"
  shows "lex (d # cs) =
     (case lex_number (d # cs) of None \<Rightarrow> None | Some (x, r) \<Rightarrow> map_option (Cons (TNum x)) (lex r))"
proof -
  have "(of_char d :: nat) = 45 \<or> (48 \<le> (of_char d :: nat) \<and> (of_char d :: nat) \<le> 57)"
    using assms by (auto simp: is_digit_code)
  then have "\<not> is_ws d" "d \<noteq> CHR ''{''" "d \<noteq> CHR ''}''" "d \<noteq> CHR ''[''" "d \<noteq> CHR '']''"
    "d \<noteq> CHR '':''" "d \<noteq> CHR '',''" "d \<noteq> dquote" "d \<noteq> CHR ''t''" "d \<noteq> CHR ''f''"
    "d \<noteq> CHR ''n''"
    by (auto simp: is_ws_def dquote_def)
  then show ?thesis by simp
qed

lemma show_int_start: "\<exists>d ds. show_int i = d # ds \<and> (d = CHR ''-'' \<or> is_digit d)"
proof (cases "i < 0")
  case True
  then show ?thesis by (simp add: show_int_def)
next
  case False
  obtain d ds where s: "show_nat (nat i) = d # ds"
    using show_nat_nonempty by (cases "show_nat (nat i)") auto
  then have "is_digit d" using show_nat_digits [of "nat i"] by simp
  with s False show ?thesis by (simp add: show_int_def)
qed

lemma lex_show_int:
  assumes "c = CHR '','' \<or> c = CHR ''}''"
  shows "lex (show_int i @ c # r) = map_option (Cons (TNum (of_int i))) (lex (c # r))"
proof -
  have c: "\<not> is_digit c" "c \<noteq> CHR ''.''" "c \<noteq> CHR ''e''" "c \<noteq> CHR ''E''"
    using assms by (auto simp: is_digit_code)
  obtain d ds where s: "show_int i = d # ds" and d: "d = CHR ''-'' \<or> is_digit d"
    using show_int_start by blast
  have "lex_number (d # ds @ c # r) = Some (of_int i, c # r)"
    using lex_number_show_int [OF c, of i r] unfolding s by simp
  then show ?thesis
    unfolding s using lex_number_start [OF d, of "ds @ c # r"] by (simp del: lex.simps)
qed

lemma lex_stringify_punch:
  "lex (stringify_punch p @ r) = map_option ((@) (punch_tokens p)) (lex (r))"
proof -
  have "lex (stringify_punch p @ r) =
      map_option (Cons LBrace) (map_option (Cons (TStr ''id'')) (map_option (Cons Colon)
       (map_option (Cons (TStr (id' p))) (map_option (Cons Comma)
       (map_option (Cons (TStr ''type'')) (map_option (Cons Colon)
       (map_option (Cons (TStr (type_name (type p)))) (map_option (Cons Comma)
       (map_option (Cons (TStr ''timestamp'')) (map_option (Cons Colon)
       (map_option (Cons (TNum (of_int (timestamp p)))) (map_option (Cons RBrace) (lex r)))))))))))))"
    unfolding stringify_punch_def
    by (simp only: append_assoc append_Cons append_Nil lex_punct lex_quote
        lex_show_int [of "CHR ''}''", OF disjI2 [OF refl]])
  then show ?thesis
    by (cases "lex r") (simp_all add: punch_tokens_def)
qed

lemma lex_join_punches:
  "lex (join_commas (map stringify_punch ps) @ r) = map_option ((@) (punches_tokens ps)) (lex r)"
proof (induction ps rule: punches_tokens.induct)
  case 1
  show ?case by (cases "lex r") simp_all
next
  case (2 p)
  show ?case by (simp add: lex_stringify_punch del: lex.simps)
next
  case (3 p q ps)
  have "lex (join_commas (map stringify_punch (p # q # ps)) @ r)
      = lex (stringify_punch p @ CHR '','' # (join_commas (map stringify_punch (q # ps)) @ r))"
    by simp
  also have "\<dots> = map_option ((@) (punch_tokens p))
      (map_option (Cons Comma) (map_option ((@) (punches_tokens (q # ps))) (lex r)))"
    unfolding lex_stringify_punch lex_punct "3.IH" ..
  also have "\<dots> = map_option ((@) (punches_tokens (p # q # ps))) (lex r)"
    by (cases "lex r") simp_all
  finally show ?case .
qed

lemma lex_JSON_stringify:
  "lex (JSON_stringify ps) = Some (LBrack # punches_tokens ps @ [RBrack])"
proof -
  have "lex (JSON_stringify ps) = lex (CHR ''['' # (join_commas (map stringify_punch ps) @ '']''))"
    by (simp add: JSON_stringify_def)
  also have "\<dots> = map_option (Cons LBrack)
      (map_option ((@) (punches_tokens ps)) (lex '']''))"
    unfolding lex_punct lex_join_punches ..
  also have "lex '']'' = Some [RBrack]"
    by (simp add: lex_punct del: lex.simps(2))
  finally show ?thesis by simp
qed

lemma parse_punch:
  "parse_value (Suc (Suc (Suc (Suc (Suc n))))) (punch_tokens p @ r) = Some (punch_json p, r)"
  by (simp add: punch_tokens_def punch_json_def)

lemma parse_punches:
  "length ps + 6 \<le> k \<Longrightarrow>
   parse_array k (punches_tokens (p # ps) @ RBrack # r) = Some (map punch_json (p # ps), r)"
proof (induction ps arbitrary: p k)
  case Nil
  then have "6 \<le> k" by simp
  then obtain m where "k = 6 + m" using le_Suc_ex by blast
  then have k: "k = Suc (Suc (Suc (Suc (Suc (Suc m)))))" by simp
  show ?case
    unfolding k by (simp add: parse_punch del: parse_value.simps)
next
  case (Cons q qs)
  then have "length qs + 7 \<le> k" by simp
  then obtain m where "k = (length qs + 7) + m" using le_Suc_ex by blast
  then have k: "k = Suc (Suc (Suc (Suc (Suc (Suc (Suc (length qs + m)))))))" by simp
  have ih: "parse_array (Suc (Suc (Suc (Suc (Suc (Suc (length qs + m)))))))
      (punches_tokens (q # qs) @ RBrack # r) = Some (map punch_json (q # qs), r)"
    by (rule Cons.IH) simp
  have v: "parse_value (Suc (Suc (Suc (Suc (Suc (Suc (length qs + m)))))))
      (punch_tokens p @ Comma # punches_tokens (q # qs) @ RBrack # r)
      = Some (punch_json p, Comma # punches_tokens (q # qs) @ RBrack # r)"
    by (rule parse_punch)
  show ?case
    unfolding k using v ih by (simp del: parse_value.simps parse_array.simps add: parse_array.simps(2) [of "Suc _"])
qed

lemma length_punches_tokens: "length ps \<le> length (punches_tokens ps)"
  by (induction ps rule: punches_tokens.induct) (simp_all add: punch_tokens_def)

lemma parse_JSON_stringify:
  "JSON_parse (JSON_stringify ps) = Inr (JArr (map punch_json ps))"
proof (cases ps)
  case Nil
  then show ?thesis
    by (simp add: JSON_parse_def lex_JSON_stringify)
next
  case (Cons p qs)
  define ts where "ts = punches_tokens (p # qs) @ [RBrack]"
  have "length qs + 6 \<le> length ts"
    using length_punches_tokens [of qs]
    by (cases qs) (simp_all add: ts_def punch_tokens_def)
  then have l: "length qs + 6 \<le> Suc (length ts)" by simp
  have a: "parse_array (Suc (length ts)) ts = Some (map punch_json (p # qs), [])"
    using parse_punches [OF l, of p "[]"] by (simp add: ts_def)
  have ne: "ts \<noteq> []" and hd: "hd ts = LBrace"
    by (cases qs; simp add: ts_def punch_tokens_def)+
  then obtain t ts' where tt: "ts = t # ts'" and t: "t = LBrace"
    by (cases ts) auto
  have "parse_value (Suc (length (LBrack # ts))) (LBrack # ts) = Some (JArr (map punch_json (p # qs)), [])"
    using a unfolding tt t by (simp del: parse_array.simps)
  then show ?thesis
    unfolding Cons JSON_parse_def lex_JSON_stringify by (simp add: ts_def)
qed

lemma as_punch_punch_json: "as_punch (punch_json p) = Some p"
  by (cases p; cases "type p") (simp_all add: as_punch_def punch_json_def member_value_def type_name_def)

lemma as_punches_punch_json: "as_punches (JArr (map punch_json ps)) = Some ps"
  by (induction ps) (simp_all add: as_punches_def as_punch_punch_json)

lemma JSON_stringify_nonempty: "JSON_stringify ps \<noteq> []"
  by (simp add: JSON_stringify_def)

section \<open>The punch store\<close>

lemma load_absent: "load_punches Map.empty = Punches []"
  by (simp add: load_punches_def)

lemma load_malformed:
  "storage STORAGE_KEY = Some s \<Longrightarrow> JSON_parse s = Inl e \<Longrightarrow> load_punches storage = Punches []"
  by (simp add: load_punches_def)

text \<open>
  Claim C9. Persisting a punch list (serialising it under the storage key) and loading it
  back gives the same list, element for element and in the same order.
\<close>

theorem persist_load_roundtrip:
  "load_punches (persist_punches ps storage) = Punches ps"
  by (simp add: load_punches_def persist_punches_def JSON_stringify_nonempty
      parse_JSON_stringify as_punches_punch_json)

section \<open>The insight client\<close>

lemma getWorkInsights_client_error:
  "getWorkInsights workData (Inl e) response = Inl e"
  by (simp add: getWorkInsights_def)





end
